theory Spec2Isabelle
  imports Main "HOL-Library.Sublist" "HOL-Library.Multiset" "HOL-Library.List_Lexorder"
    "HOL-Library.AList"
begin

section \<open>JavaScript strings\<close>

text \<open>
  A JavaScript string is a sequence of UTF-16 code units.  A code unit is modelled by its
  numeric value; ASCII literals of the source are written with \<open>js\<close>.
\<close>

type_synonym jsstring = "nat list"

definition js :: "string \<Rightarrow> jsstring" where
  "js s = map of_char s"

text \<open>\<^verbatim>\<open>text.indexOf(pat)\<close>: offset of the first occurrence, \<open>None\<close> for \<open>-1\<close>.\<close>

fun indexOf0 :: "jsstring \<Rightarrow> jsstring \<Rightarrow> nat option" where
  "indexOf0 pat [] = (if pat = [] then Some 0 else None)"
| "indexOf0 pat (x # xs) =
     (if prefix pat (x # xs) then Some 0 else map_option Suc (indexOf0 pat xs))"

text \<open>\<^verbatim>\<open>s.indexOf(pat, from)\<close>; the start position is clamped to the length.\<close>

definition indexOf :: "jsstring \<Rightarrow> jsstring \<Rightarrow> nat \<Rightarrow> nat option" where
  "indexOf s pat from =
     (let k = min from (length s) in map_option (\<lambda>i. k + i) (indexOf0 pat (drop k s)))"

text \<open>\<^verbatim>\<open>s.slice(b, e)\<close> for non-negative arguments: empty when \<open>e \<le> b\<close>.\<close>

definition slice :: "jsstring \<Rightarrow> nat \<Rightarrow> nat \<Rightarrow> jsstring" where
  "slice s b e = take (e - b) (drop b s)"

text \<open>\<^verbatim>\<open>s.split("\n")\<close>\<close>

fun splitLines :: "jsstring \<Rightarrow> jsstring list" where
  "splitLines [] = [[]]"
| "splitLines (c # cs) =
     (if c = 10 then [] # splitLines cs
      else (case splitLines cs of l # ls \<Rightarrow> (c # l) # ls | [] \<Rightarrow> [[c]]))"

text \<open>\<^verbatim>\<open>xs.join(sep)\<close>\<close>

fun joinWith :: "jsstring \<Rightarrow> jsstring list \<Rightarrow> jsstring" where
  "joinWith sep [] = []"
| "joinWith sep [x] = x"
| "joinWith sep (x # y # ys) = x @ sep @ joinWith sep (y # ys)"

section \<open>shared/plist/parser.ts\<close>

definition OPEN :: jsstring where
  "OPEN = js ''<dict>''"

definition CLOSE :: jsstring where
  "CLOSE = js ''</dict>''"

lemma indexOf0_le: "indexOf0 pat s = Some i \<Longrightarrow> i + length pat \<le> length s"
proof (induction s arbitrary: i)
  case Nil
  then show ?case by (simp split: if_splits)
next
  case (Cons x xs)
  show ?case
  proof (cases "prefix pat (x # xs)")
    case True
    then have "length pat \<le> length (x # xs)" by (rule prefix_length_le)
    with True Cons.prems show ?thesis by simp
  next
    case False
    with Cons.prems obtain j where "indexOf0 pat xs = Some j" "i = Suc j" by auto
    with Cons.IH show ?thesis by fastforce
  qed
qed

lemma indexOf_ge: "indexOf s pat from = Some i \<Longrightarrow> min from (length s) \<le> i"
  by (auto simp: indexOf_def Let_def)

lemma indexOf_bound: "indexOf s pat from = Some i \<Longrightarrow> i + length pat \<le> length s"
  by (fastforce simp: indexOf_def Let_def min_def dest: indexOf0_le split: if_splits)

text \<open>
  The inner \<^verbatim>\<open>while (cur < xml.length && depth > 0)\<close> loop of
  \<^verbatim>\<open>extractTopLevelDicts\<close>.  It returns the value of \<^verbatim>\<open>depth\<close> when the
  loop is left, and the index \<^verbatim>\<open>nextClose\<close> of the closing tag when the branch
  \<^verbatim>\<open>depth === 0\<close> was taken (the branch that pushes a result).
\<close>

function scanDepth :: "jsstring \<Rightarrow> nat \<Rightarrow> nat \<Rightarrow> nat \<times> nat option" where
  "scanDepth xml cur depth =
     (if cur < length xml \<and> depth > 0 then
        (case indexOf xml CLOSE cur of
           None \<Rightarrow> (depth, None)
         | Some nextClose \<Rightarrow>
             (case indexOf xml OPEN cur of
                Some nextOpen \<Rightarrow>
                  if nextOpen < nextClose then scanDepth xml (nextOpen + 6) (depth + 1)
                  else if depth - 1 = 0 then (depth - 1, Some nextClose)
                  else scanDepth xml (nextClose + 7) (depth - 1)
              | None \<Rightarrow>
                  if depth - 1 = 0 then (depth - 1, Some nextClose)
                  else scanDepth xml (nextClose + 7) (depth - 1)))
      else (depth, None))"
  by pat_completeness auto
termination
proof (relation "measure (\<lambda>(xml, cur, depth). length xml - cur)")
  show "wf (measure (\<lambda>(xml, cur, depth). length xml - cur))" by simp
next
  fix xml :: jsstring and cur depth nextClose nextOpen :: nat
  assume "cur < length xml \<and> 0 < depth" "indexOf xml OPEN cur = Some nextOpen"
  then have "cur \<le> nextOpen" using indexOf_ge[of xml OPEN cur nextOpen] by simp
  with \<open>cur < length xml \<and> 0 < depth\<close>
  show "((xml, nextOpen + 6, depth + 1), (xml, cur, depth)) \<in> measure (\<lambda>(xml, cur, depth). length xml - cur)"
    by auto
next
  fix xml :: jsstring and cur depth nextClose nextOpen :: nat
  assume "cur < length xml \<and> 0 < depth" "indexOf xml CLOSE cur = Some nextClose"
  then have "cur \<le> nextClose" using indexOf_ge[of xml CLOSE cur nextClose] by simp
  with \<open>cur < length xml \<and> 0 < depth\<close>
  show "((xml, nextClose + 7, depth - 1), (xml, cur, depth)) \<in> measure (\<lambda>(xml, cur, depth). length xml - cur)"
    by auto
next
  fix xml :: jsstring and cur depth nextClose :: nat
  assume "cur < length xml \<and> 0 < depth" "indexOf xml CLOSE cur = Some nextClose"
  then have "cur \<le> nextClose" using indexOf_ge[of xml CLOSE cur nextClose] by simp
  with \<open>cur < length xml \<and> 0 < depth\<close>
  show "((xml, nextClose + 7, depth - 1), (xml, cur, depth)) \<in> measure (\<lambda>(xml, cur, depth). length xml - cur)"
    by auto
qed

declare scanDepth.simps [simp del]

lemma scanDepth_Some_ge: "scanDepth xml cur depth = (d, Some nc) \<Longrightarrow> cur \<le> nc"
proof (induction xml cur depth rule: scanDepth.induct)
  case (1 xml cur depth)
  from "1.prems" have run: "cur < length xml \<and> 0 < depth"
    by (auto simp: scanDepth.simps[of xml cur depth] split: if_splits)
  from "1.prems" run obtain c where c: "indexOf xml CLOSE cur = Some c"
    by (auto simp: scanDepth.simps[of xml cur depth] split: option.splits)
  from c run have cc: "cur \<le> c" using indexOf_ge[of xml CLOSE cur c] by simp
  show ?case
  proof (cases "indexOf xml OPEN cur")
    case None
    with "1.prems" run c cc "1.IH"(1)[OF run c None] show ?thesis
      by (auto simp: scanDepth.simps[of xml cur depth] split: if_splits)
  next
    case (Some nextOpen)
    from Some run have oo: "cur \<le> nextOpen" using indexOf_ge[of xml OPEN cur nextOpen] by simp
    with "1.prems" run c cc Some "1.IH"(2)[OF run c Some] "1.IH"(3)[OF run c Some]
    show ?thesis
      by (auto simp: scanDepth.simps[of xml cur depth] split: if_splits)
  qed
qed

lemma scanDepth_None_pos: "scanDepth xml cur depth = (d, None) \<Longrightarrow> 0 < depth \<Longrightarrow> 0 < d"
proof (induction xml cur depth rule: scanDepth.induct)
  case (1 xml cur depth)
  show ?case
  proof (cases "cur < length xml")
    case False
    with "1.prems" show ?thesis by (simp add: scanDepth.simps[of xml cur depth])
  next
    case True
    with "1.prems" have run: "cur < length xml \<and> 0 < depth" by simp
    show ?thesis
    proof (cases "indexOf xml CLOSE cur")
      case None
      with "1.prems" run show ?thesis by (simp add: scanDepth.simps[of xml cur depth])
    next
      case c: (Some c)
      show ?thesis
      proof (cases "indexOf xml OPEN cur")
        case None
        with "1.prems" run c "1.IH"(1)[OF run c None] show ?thesis
          by (auto simp: scanDepth.simps[of xml cur depth] split: if_splits)
      next
        case (Some nextOpen)
        with "1.prems" run c "1.IH"(2)[OF run c Some] "1.IH"(3)[OF run c Some]
        show ?thesis
          by (auto simp: scanDepth.simps[of xml cur depth] split: if_splits)
      qed
    qed
  qed
qed

text \<open>
  The outer \<^verbatim>\<open>while (pos < xml.length)\<close> loop; \<open>results\<close> is the array being
  filled.  The test \<^verbatim>\<open>if (depth !== 0) break\<close> follows the inner loop on both of its
  exits.
\<close>

function extractLoop :: "jsstring \<Rightarrow> nat \<Rightarrow> jsstring list \<Rightarrow> jsstring list" where
  "extractLoop xml pos results =
     (if pos < length xml then
        (case indexOf xml OPEN pos of
           None \<Rightarrow> results
         | Some openIdx \<Rightarrow>
             (case scanDepth xml (openIdx + 6) 1 of
                (depth, Some nextClose) \<Rightarrow>
                  if depth \<noteq> 0 then results @ [slice xml (openIdx + 6) nextClose]
                  else extractLoop xml (nextClose + 7)
                         (results @ [slice xml (openIdx + 6) nextClose])
              | (depth, None) \<Rightarrow>
                  if depth \<noteq> 0 then results else extractLoop xml pos results))
      else results)"
  by pat_completeness auto
termination
  apply (relation "measure (\<lambda>(xml, pos, results). length xml - pos)")
    apply simp
  subgoal for xml pos results openIdx depth y
    using scanDepth_None_pos[of xml "openIdx + 6" 1 depth] by simp
  subgoal for xml pos results openIdx depth y nextClose
    using indexOf_ge[of xml OPEN pos openIdx]
      scanDepth_Some_ge[of xml "openIdx + 6" 1 depth nextClose]
    by auto
  done

declare extractLoop.simps [simp del]

definition extractTopLevelDicts :: "jsstring \<Rightarrow> jsstring list" where
  "extractTopLevelDicts xml = extractLoop xml 0 []"

subsection \<open>Typed field extractors\<close>

text \<open>
  The white space of JavaScript, as matched by \<^verbatim>\<open>\s\<close> in a regular expression and
  removed by \<^verbatim>\<open>String.prototype.trim\<close>: the code points of WhiteSpace and of
  LineTerminator.
\<close>

definition isWhiteSpace :: "nat \<Rightarrow> bool" where
  "isWhiteSpace c \<longleftrightarrow>
     c \<in> {9, 10, 11, 12, 13, 32, 160, 5760, 8232, 8233, 8239, 8287, 12288, 65279} \<or>
     (8192 \<le> c \<and> c \<le> 8202)"

definition trim :: "jsstring \<Rightarrow> jsstring" where
  "trim s = rev (dropWhile isWhiteSpace (rev (dropWhile isWhiteSpace s)))"

text \<open>Matching a literal at the start of a string; the result is what follows it.\<close>

fun stripPrefix :: "jsstring \<Rightarrow> jsstring \<Rightarrow> jsstring option" where
  "stripPrefix [] s = Some s"
| "stripPrefix (p # ps) [] = None"
| "stripPrefix (p # ps) (x # xs) = (if p = x then stripPrefix ps xs else None)"

text \<open>
  \<^verbatim>\<open>pattern.exec(content)\<close> without the global flag: the match at the leftmost position
  where the pattern matches.  \<open>m\<close> is the pattern anchored at the start of its argument.
\<close>

fun execFirst :: "(jsstring \<Rightarrow> 'a option) \<Rightarrow> jsstring \<Rightarrow> 'a option" where
  "execFirst m [] = m []"
| "execFirst m (x # xs) = (case m (x # xs) of Some r \<Rightarrow> Some r | None \<Rightarrow> execFirst m xs)"

text \<open>
  The text \<^verbatim>\<open><key>keyName</key>\<close>.  \<^verbatim>\<open>escapeRegex\<close> quotes every character of
  \<^verbatim>\<open>keyName\<close> that is special in a regular expression, so the pattern built from it
  matches the key name literally.
\<close>

definition keyTag :: "jsstring \<Rightarrow> jsstring" where
  "keyTag keyName = js ''<key>'' @ keyName @ js ''</key>''"

text \<open>
  \<^verbatim>\<open><key>K</key>\s*<tag>([^<]*)<\/tag>\<close> anchored: the result is capture group 1.
  Both quantifiers are greedy, and giving characters back never helps: what follows
  \<^verbatim>\<open>\s*\<close> and \<^verbatim>\<open>[^<]*\<close> starts with \<^verbatim>\<open><\<close>, which neither class contains.
\<close>

definition matchKeyElement :: "jsstring \<Rightarrow> jsstring \<Rightarrow> jsstring \<Rightarrow> jsstring option" where
  "matchKeyElement keyName tag s =
     (case stripPrefix (keyTag keyName) s of
        None \<Rightarrow> None
      | Some r1 \<Rightarrow>
          (case stripPrefix (js ''<'' @ tag @ js ''>'') (dropWhile isWhiteSpace r1) of
             None \<Rightarrow> None
           | Some r2 \<Rightarrow>
               (case stripPrefix (js ''</'' @ tag @ js ''>'') (dropWhile (\<lambda>c. c \<noteq> 60) r2) of
                  None \<Rightarrow> None
                | Some r3 \<Rightarrow> Some (takeWhile (\<lambda>c. c \<noteq> 60) r2))))"

text \<open>\<^verbatim>\<open><key>K</key>\s*<(true|false)\/>\<close> anchored: whether group 1 is \<^verbatim>\<open>true\<close>.\<close>

definition matchKeyBool :: "jsstring \<Rightarrow> jsstring \<Rightarrow> bool option" where
  "matchKeyBool keyName s =
     (case stripPrefix (keyTag keyName) s of
        None \<Rightarrow> None
      | Some r1 \<Rightarrow>
          (case stripPrefix (js ''<true/>'') (dropWhile isWhiteSpace r1) of
             Some r2 \<Rightarrow> Some True
           | None \<Rightarrow>
               (case stripPrefix (js ''<false/>'') (dropWhile isWhiteSpace r1) of
                  Some r2 \<Rightarrow> Some False
                | None \<Rightarrow> None)))"

text \<open>\<^verbatim>\<open><key>K</key>\s*<dict>\<close> anchored: the result is what follows the match.\<close>

definition matchKeyDict :: "jsstring \<Rightarrow> jsstring \<Rightarrow> jsstring option" where
  "matchKeyDict keyName s =
     (case stripPrefix (keyTag keyName) s of
        None \<Rightarrow> None
      | Some r1 \<Rightarrow> stripPrefix OPEN (dropWhile isWhiteSpace r1))"

definition extractStringAfterKey :: "jsstring \<Rightarrow> jsstring \<Rightarrow> jsstring option" where
  "extractStringAfterKey content keyName =
     (case execFirst (matchKeyElement keyName (js ''string'')) content of
        Some m1 \<Rightarrow> Some (trim m1)
      | None \<Rightarrow> None)"

definition extractDateAfterKey :: "jsstring \<Rightarrow> jsstring \<Rightarrow> jsstring option" where
  "extractDateAfterKey content keyName =
     (case execFirst (matchKeyElement keyName (js ''date'')) content of
        Some m1 \<Rightarrow> Some (trim m1)
      | None \<Rightarrow> None)"

definition extractBoolAfterKey :: "jsstring \<Rightarrow> jsstring \<Rightarrow> bool option" where
  "extractBoolAfterKey content keyName = execFirst (matchKeyBool keyName) content"

text \<open>
  Numbers are kept abstract: \<open>parseInt\<close> stands for \<^verbatim>\<open>s \<Rightarrow> parseInt(s, 10)\<close> and
  \<open>parseFloat\<close> for \<^verbatim>\<open>parseFloat\<close>, with any type \<open>'n\<close> of numbers.
\<close>

definition extractIntegerAfterKey ::
  "(jsstring \<Rightarrow> 'n) \<Rightarrow> jsstring \<Rightarrow> jsstring \<Rightarrow> 'n option" where
  "extractIntegerAfterKey parseInt content keyName =
     (case execFirst (matchKeyElement keyName (js ''integer'')) content of
        Some m1 \<Rightarrow> Some (parseInt (trim m1))
      | None \<Rightarrow> None)"

definition extractRealAfterKey ::
  "(jsstring \<Rightarrow> 'n) \<Rightarrow> jsstring \<Rightarrow> jsstring \<Rightarrow> 'n option" where
  "extractRealAfterKey parseFloat content keyName =
     (case execFirst (matchKeyElement keyName (js ''real'')) content of
        Some m1 \<Rightarrow> Some (parseFloat (trim m1))
      | None \<Rightarrow> None)"

text \<open>
  \<^verbatim>\<open>extractSubDictAfterKey\<close>.  \<open>startPos\<close> is
  \<^verbatim>\<open>keyMatch.index + keyMatch[0].length\<close>.  Its loop is the loop \<open>scanDepth\<close>, statement
  for statement, except that the branch \<^verbatim>\<open>depth === 0\<close> returns the slice; when the
  loop ends otherwise the function returns \<^verbatim>\<open>null\<close>.
\<close>

definition extractSubDictAfterKey :: "jsstring \<Rightarrow> jsstring \<Rightarrow> jsstring option" where
  "extractSubDictAfterKey content keyName =
     (case execFirst (matchKeyDict keyName) content of
        None \<Rightarrow> None
      | Some rest \<Rightarrow>
          (let startPos = length content - length rest in
           case snd (scanDepth content startPos 1) of
             Some closeIdx \<Rightarrow> Some (slice content startPos closeIdx)
           | None \<Rightarrow> None))"

section \<open>tools/custom/list-smart-groups.ts and the smart-rule lister\<close>

record SmartGroupEntry =
  name :: jsstring
  uuid :: jsstring
  syncDate :: "jsstring option"
  useUuidKey :: "bool option"

record 'n SmartRuleEntry = SmartGroupEntry +
  enabled :: "bool option"
  indexOffset :: "'n option"
  lastExecution :: "'n option"

text \<open>\<^verbatim>\<open>!x\<close> for \<^verbatim>\<open>x: string | null\<close>: true for \<^verbatim>\<open>null\<close> and for the empty string.\<close>

definition falsy :: "jsstring option \<Rightarrow> bool" where
  "falsy x \<longleftrightarrow> x = None \<or> x = Some []"

text \<open>\<^verbatim>\<open>x ?? d\<close>\<close>

definition nullish :: "'a option \<Rightarrow> 'a \<Rightarrow> 'a" where
  "nullish x d = (case x of None \<Rightarrow> d | Some v \<Rightarrow> v)"

text \<open>
  The body of the \<^verbatim>\<open>for (const dictContent of topLevelDicts)\<close> loop of
  \<^verbatim>\<open>parsePlistXmlToSmartGroups\<close>: \<open>None\<close> when the body ends with \<^verbatim>\<open>continue\<close>,
  otherwise the entry it pushes.
\<close>

definition smartGroupOfDict :: "jsstring \<Rightarrow> SmartGroupEntry option" where
  "smartGroupOfDict dictContent =
     (let name = extractStringAfterKey dictContent (js ''name'');
          useUuidKey = extractBoolAfterKey dictContent (js ''UseUUIDKey'');
          syncContent = extractSubDictAfterKey dictContent (js ''sync'');
          uuid = (case syncContent of Some sc \<Rightarrow> extractStringAfterKey sc (js ''UUID'')
                  | None \<Rightarrow> None);
          syncDate = (case syncContent of Some sc \<Rightarrow> extractDateAfterKey sc (js ''date'')
                  | None \<Rightarrow> None)
      in if falsy name \<and> falsy uuid then None
         else Some \<lparr>name = nullish name (js ''(unnamed)''), uuid = nullish uuid [],
                    syncDate = (case syncDate of None \<Rightarrow> None | Some d \<Rightarrow> Some d),
                    useUuidKey = useUuidKey\<rparr>)"

fun smartGroupsLoop :: "jsstring list \<Rightarrow> SmartGroupEntry list \<Rightarrow> SmartGroupEntry list" where
  "smartGroupsLoop [] results = results"
| "smartGroupsLoop (dictContent # rest) results =
     (case smartGroupOfDict dictContent of
        None \<Rightarrow> smartGroupsLoop rest results
      | Some entry \<Rightarrow> smartGroupsLoop rest (results @ [entry]))"

definition parsePlistXmlToSmartGroups :: "jsstring \<Rightarrow> SmartGroupEntry list" where
  "parsePlistXmlToSmartGroups xml = smartGroupsLoop (extractTopLevelDicts xml) []"

text \<open>The same for \<^verbatim>\<open>parsePlistXmlToSmartRules\<close>.\<close>

definition smartRuleOfDict ::
  "(jsstring \<Rightarrow> 'n) \<Rightarrow> (jsstring \<Rightarrow> 'n) \<Rightarrow> jsstring \<Rightarrow> 'n SmartRuleEntry option" where
  "smartRuleOfDict parseInt parseFloat dictContent =
     (let name = extractStringAfterKey dictContent (js ''name'');
          enabled = extractBoolAfterKey dictContent (js ''Enabled'');
          indexOffset = extractIntegerAfterKey parseInt dictContent (js ''IndexOffset'');
          lastExecution = extractRealAfterKey parseFloat dictContent (js ''LastExecution'');
          useUuidKey = extractBoolAfterKey dictContent (js ''UseUUIDKey'');
          syncContent = extractSubDictAfterKey dictContent (js ''sync'');
          uuid = (case syncContent of Some sc \<Rightarrow> extractStringAfterKey sc (js ''UUID'')
                  | None \<Rightarrow> None);
          syncDate = (case syncContent of Some sc \<Rightarrow> extractDateAfterKey sc (js ''date'')
                  | None \<Rightarrow> None)
      in if falsy name \<and> falsy uuid then None
         else Some \<lparr>name = nullish name (js ''(unnamed)''), uuid = nullish uuid [],
                    syncDate = (case syncDate of None \<Rightarrow> None | Some d \<Rightarrow> Some d),
                    useUuidKey = useUuidKey,
                    enabled = enabled, indexOffset = indexOffset,
                    lastExecution = lastExecution\<rparr>)"

fun smartRulesLoop ::
  "(jsstring \<Rightarrow> 'n) \<Rightarrow> (jsstring \<Rightarrow> 'n) \<Rightarrow> jsstring list \<Rightarrow>
   'n SmartRuleEntry list \<Rightarrow> 'n SmartRuleEntry list" where
  "smartRulesLoop parseInt parseFloat [] results = results"
| "smartRulesLoop parseInt parseFloat (dictContent # rest) results =
     (case smartRuleOfDict parseInt parseFloat dictContent of
        None \<Rightarrow> smartRulesLoop parseInt parseFloat rest results
      | Some entry \<Rightarrow> smartRulesLoop parseInt parseFloat rest (results @ [entry]))"

definition parsePlistXmlToSmartRules ::
  "(jsstring \<Rightarrow> 'n) \<Rightarrow> (jsstring \<Rightarrow> 'n) \<Rightarrow> jsstring \<Rightarrow> 'n SmartRuleEntry list" where
  "parsePlistXmlToSmartRules parseInt parseFloat xml =
     smartRulesLoop parseInt parseFloat (extractTopLevelDicts xml) []"

text \<open>
  \<^verbatim>\<open>xs.sort(compare)\<close>.  The language fixes the result for a consistent comparator:
  the elements in ascending order of \<open>compare\<close>, equal elements in their original order.
  The model is the stable insertion sort; \<open>compare a b\<close> is negative, zero or positive.
\<close>

fun sortInsert :: "('a \<Rightarrow> 'a \<Rightarrow> int) \<Rightarrow> 'a \<Rightarrow> 'a list \<Rightarrow> 'a list" where
  "sortInsert compare x [] = [x]"
| "sortInsert compare x (y # ys) =
     (if compare x y < 0 then x # y # ys else y # sortInsert compare x ys)"

definition arraySort :: "('a \<Rightarrow> 'a \<Rightarrow> int) \<Rightarrow> 'a list \<Rightarrow> 'a list" where
  "arraySort compare xs = foldl (\<lambda>sorted x. sortInsert compare x sorted) [] xs"

text \<open>
  Result objects.  Every tool result has \<^verbatim>\<open>success\<close> and an optional \<^verbatim>\<open>error\<close>;
  an absent property is \<open>None\<close>.  \<open>entries\<close> is the property \<^verbatim>\<open>smartGroups\<close> of
  \<^verbatim>\<open>SmartGroupsResult\<close> and the property \<^verbatim>\<open>smartRules\<close> of \<^verbatim>\<open>SmartRulesResult\<close>.
\<close>

record ToolResult =
  success :: bool
  error :: "jsstring option"

record 'e ListResult = ToolResult +
  entries :: "'e list option"
  totalCount :: "nat option"

text \<open>
  \<^verbatim>\<open>listSmartGroups\<close>.  The environment is explicit: \<open>plistPath\<close> is the constant
  \<^verbatim>\<open>PLIST_PATH\<close>, \<open>fileExists\<close> the answer of \<^verbatim>\<open>existsSync\<close>, \<open>plutil\<close> the outcome
  of the \<^verbatim>\<open>plutil -convert xml1\<close> command (\<open>Inl\<close> the message of the exception it
  throws, \<open>Inr\<close> its standard output), \<open>localeCompare\<close> the collation of the platform.
  The parse step cannot throw in this model, so its \<^verbatim>\<open>catch\<close> branch has no counterpart.
\<close>

definition listSmartGroups ::
  "(jsstring \<Rightarrow> jsstring \<Rightarrow> int) \<Rightarrow> jsstring \<Rightarrow> bool \<Rightarrow> jsstring + jsstring \<Rightarrow>
   SmartGroupEntry ListResult" where
  "listSmartGroups localeCompare plistPath fileExists plutil =
     (if \<not> fileExists then
        \<lparr>success = False,
         error = Some (js ''SmartGroups.plist not found at: '' @ plistPath @
                       js ''. Ensure DEVONthink has been run at least once.''),
         entries = None, totalCount = None\<rparr>
      else
        (case plutil of
           Inl message \<Rightarrow>
             \<lparr>success = False,
              error = Some (js ''Failed to parse SmartGroups.plist: '' @ message),
              entries = None, totalCount = None\<rparr>
         | Inr xml \<Rightarrow>
             (let smartGroups = arraySort (\<lambda>a b. localeCompare (name a) (name b))
                                  (parsePlistXmlToSmartGroups xml)
              in \<lparr>success = True, error = None, entries = Some smartGroups,
                  totalCount = Some (length smartGroups)\<rparr>)))"

definition listSmartRules ::
  "(jsstring \<Rightarrow> jsstring \<Rightarrow> int) \<Rightarrow> (jsstring \<Rightarrow> 'n) \<Rightarrow> (jsstring \<Rightarrow> 'n) \<Rightarrow>
   jsstring \<Rightarrow> bool \<Rightarrow> jsstring + jsstring \<Rightarrow> 'n SmartRuleEntry ListResult" where
  "listSmartRules localeCompare parseInt parseFloat plistPath fileExists plutil =
     (if \<not> fileExists then
        \<lparr>success = False,
         error = Some (js ''SmartRules.plist not found at: '' @ plistPath @
                       js ''. Ensure DEVONthink has been run at least once and smart rules have been created.''),
         entries = None, totalCount = None\<rparr>
      else
        (case plutil of
           Inl message \<Rightarrow>
             \<lparr>success = False,
              error = Some (js ''Failed to parse SmartRules.plist: '' @ message),
              entries = None, totalCount = None\<rparr>
         | Inr xml \<Rightarrow>
             (let smartRules = arraySort (\<lambda>a b. localeCompare (name a) (name b))
                                 (parsePlistXmlToSmartRules parseInt parseFloat xml)
              in \<lparr>success = True, error = None, entries = Some smartRules,
                  totalCount = Some (length smartRules)\<rparr>)))"

section \<open>shared/plist/reader.ts and tools/custom/column-layout.ts\<close>

text \<open>
  The preference file is a dictionary; \<^verbatim>\<open>plistlib\<close> loads it into a Python \<^verbatim>\<open>dict\<close>,
  which keeps its keys in the order of the file.  It is modelled by an association list
  with distinct keys; \<open>'v\<close> is the type of plist values, and a key is held in its UTF-16
  form, the form in which JavaScript sees it.  The external commands are modelled by
  what they do to this dictionary.  They run in a UTF-8 locale, and the path of the
  preference file, a constant of the tools, has no quote and is plain in the sense
  below.  Failures of the environment (a missing or unreadable file, a time-out, output
  beyond the buffer of \<^verbatim>\<open>execSync\<close>) are not modelled.
\<close>

type_synonym 'v store = "(jsstring \<times> 'v) list"

subsection \<open>Strings on their way into a command\<close>

text \<open>
  Python compares and sorts strings by code point.  \<open>codePoints\<close> reads a sequence of
  UTF-16 code units as code points: a high surrogate followed by a low surrogate is one
  code point above \<^verbatim>\<open>U+FFFF\<close>.  \<open>wellFormed\<close> holds when no surrogate is unpaired.
\<close>

definition isHighSurrogate :: "nat \<Rightarrow> bool" where
  "isHighSurrogate c \<longleftrightarrow> 55296 \<le> c \<and> c < 56320"

definition isLowSurrogate :: "nat \<Rightarrow> bool" where
  "isLowSurrogate c \<longleftrightarrow> 56320 \<le> c \<and> c < 57344"

fun codePoints :: "jsstring \<Rightarrow> nat list" where
  "codePoints (h # l # rest) =
     (if isHighSurrogate h \<and> isLowSurrogate l
      then (65536 + (h - 55296) * 1024 + (l - 56320)) # codePoints rest
      else h # codePoints (l # rest))"
| "codePoints [c] = [c]"
| "codePoints [] = []"

fun wellFormed :: "jsstring \<Rightarrow> bool" where
  "wellFormed (h # l # rest) =
     (if isHighSurrogate h then isLowSurrogate l \<and> wellFormed rest
      else \<not> isLowSurrogate h \<and> wellFormed (l # rest))"
| "wellFormed [c] = (\<not> isHighSurrogate c \<and> \<not> isLowSurrogate c)"
| "wellFormed [] = True"

text \<open>
  The scripts receive a string by splicing it into a Python literal:
  \<^verbatim>\<open>'${s.replace(/'/g, "\\'")}'\<close>.  Only the quote is escaped.  The literal denotes \<open>s\<close>
  when \<open>s\<close> has no backslash (which would start an escape sequence of Python, or escape
  the closing quote), no control character (a line break ends the line inside the
  literal) and no unpaired surrogate (which does not survive the UTF-8 encoding of the
  command line).  For such strings, \<open>pyPlain\<close>, the scripts are modelled as they are
  written.  For any other string the script that runs is another program than the one
  written in \<^verbatim>\<open>reader.ts\<close>; what it does is left to the environment.
\<close>

definition pyPlain :: "jsstring \<Rightarrow> bool" where
  "pyPlain s \<longleftrightarrow> wellFormed s \<and> list_all (\<lambda>c. 32 \<le> c \<and> c \<noteq> 127 \<and> c \<noteq> 92) s"

text \<open>
  \<^verbatim>\<open>PlistBuddy\<close> receives a key inside the command \<^verbatim>\<open>Print ':key'\<close>.  In its entry syntax
  a colon separates the keys of nested containers, and quotes and the backslash quote or
  escape; a key without any of them, without control characters and unpaired surrogates
  names the top-level entry of that key.
\<close>

definition buddyPlain :: "jsstring \<Rightarrow> bool" where
  "buddyPlain key \<longleftrightarrow>
     wellFormed key \<and>
     list_all (\<lambda>c. 32 \<le> c \<and> c \<noteq> 127 \<and> c \<noteq> 34 \<and> c \<noteq> 39 \<and> c \<noteq> 58 \<and> c \<noteq> 92) key"

text \<open>
  The environment of the layout tools.
  \<^item> \<open>printValue v\<close>: what \<^verbatim>\<open>PlistBuddy\<close> prints for the value \<open>v\<close>.
  \<^item> \<open>printOther data key\<close>: the outcome of \<^verbatim>\<open>Print ':key'\<close> for a key that is not
    \<open>buddyPlain\<close>: the output, or \<open>None\<close> when the command fails.
  \<^item> \<open>namesOther data prefixes limit\<close>: the outcome of the script of
    \<^verbatim>\<open>getPlistKeysByPrefix\<close> when a prefix is not \<open>pyPlain\<close>: the output, or \<open>None\<close> when
    \<^verbatim>\<open>execSync\<close> throws.
  \<^item> \<open>copyOther data suffixes source target\<close>: the outcome of the script of
    \<^verbatim>\<open>copyPlistKeys\<close> when a spliced string is not \<open>pyPlain\<close>: \<open>Inr\<close> the output or \<open>Inl\<close>
    the message of the exception, and the dictionary the file holds afterwards.
  \<^item> \<open>failureMessage suffixes source target err\<close>: the message of the exception that
    \<^verbatim>\<open>execSync\<close> throws when the command of \<^verbatim>\<open>copyPlistKeys\<close> for these arguments exits
    with status 1 after writing \<open>err\<close> to standard error (\<^verbatim>\<open>Command failed:\<close>, the command
    line and \<open>err\<close>).
  \<^item> \<open>parseDict\<close>: \<^verbatim>\<open>parsePlistBuddyDict\<close>, with a result type \<open>'w\<close>.
  \<^item> \<open>toLowerCase\<close>: \<^verbatim>\<open>String.prototype.toLowerCase\<close>.
\<close>

record ('v, 'w) LayoutEnv =
  printValue :: "'v \<Rightarrow> jsstring"
  printOther :: "'v store \<Rightarrow> jsstring \<Rightarrow> jsstring option"
  namesOther :: "'v store \<Rightarrow> jsstring list \<Rightarrow> nat \<Rightarrow> jsstring option"
  copyOther :: "'v store \<Rightarrow> jsstring list \<Rightarrow> jsstring \<Rightarrow> jsstring \<Rightarrow>
                (jsstring + jsstring) \<times> 'v store"
  failureMessage :: "jsstring list \<Rightarrow> jsstring \<Rightarrow> jsstring \<Rightarrow> jsstring \<Rightarrow> jsstring"
  parseDict :: "jsstring \<Rightarrow> 'w"
  toLowerCase :: "jsstring \<Rightarrow> jsstring"

text \<open>
  \<^verbatim>\<open>plistRead(PLIST_PATH, "Print ':key'")\<close>: the trimmed output, \<^verbatim>\<open>null\<close> when the
  command fails; for a plain key it fails when the key does not exist.
\<close>

definition plistRead :: "('v, 'w) LayoutEnv \<Rightarrow> 'v store \<Rightarrow> jsstring \<Rightarrow> jsstring option" where
  "plistRead env data key =
     (case (if buddyPlain key then map_option (printValue env) (map_of data key)
            else printOther env data key) of
        None \<Rightarrow> None
      | Some result \<Rightarrow> Some (trim result))"

definition parsePlistBuddyArray :: "jsstring \<Rightarrow> jsstring list" where
  "parsePlistBuddyArray raw =
     filter (\<lambda>l. l \<noteq> [] \<and> l \<noteq> js ''Array {'' \<and> l \<noteq> js ''}'') (map trim (splitLines raw))"

text \<open>
  The script of \<^verbatim>\<open>getPlistKeysByPrefix\<close>: what it prints.  Python collects the names
  in a set, drops those that start with \<^verbatim>\<open>Outline\<close>, sorts them (strings compare by code
  point) and prints the first \<open>limit\<close>, one per line.
\<close>

definition namesScript :: "'v store \<Rightarrow> jsstring list \<Rightarrow> nat \<Rightarrow> jsstring" where
  "namesScript data prefixList limit =
     (let names = concat (map (\<lambda>k. map (\<lambda>p. drop (length p) k) (filter (\<lambda>p. prefix p k) prefixList))
                            (map fst data));
          names = filter (\<lambda>n. \<not> prefix (js ''Outline'') n) (remdups names);
          names = sort_key codePoints names
      in joinWith [10] (take limit names) @ [10])"

text \<open>
  \<^verbatim>\<open>getPlistKeysByPrefix\<close>: JavaScript trims the output, splits it into lines and drops
  the empty ones; when \<^verbatim>\<open>execSync\<close> throws, the result is the empty list.
\<close>

definition getPlistKeysByPrefix ::
  "('v, 'w) LayoutEnv \<Rightarrow> 'v store \<Rightarrow> jsstring list \<Rightarrow> nat \<Rightarrow> jsstring list" where
  "getPlistKeysByPrefix env data prefixList limit =
     (case (if list_all pyPlain prefixList then Some (namesScript data prefixList limit)
            else namesOther env data prefixList limit) of
        Some result \<Rightarrow> filter (\<lambda>l. l \<noteq> []) (splitLines (trim result))
      | None \<Rightarrow> [])"

text \<open>
  The script of \<^verbatim>\<open>copyPlistKeys\<close>: the loop over the suffixes, working on the
  dictionary \<open>data\<close> and the list \<open>copied\<close>.  The arguments \<open>source\<close> and \<open>target\<close> are
  the values of the Python variables of these names, that is, what Python reads from the
  two literals; \<open>copyPlistKeys\<close> below runs the loop only where these are the strings
  that JavaScript spliced in.
\<close>

fun copyKeysLoop ::
  "jsstring list \<Rightarrow> jsstring \<Rightarrow> jsstring \<Rightarrow> 'v store \<Rightarrow> jsstring list \<Rightarrow>
   'v store \<times> jsstring list" where
  "copyKeysLoop [] source target data copied = (data, copied)"
| "copyKeysLoop (sfx # rest) source target data copied =
     (let src_key = sfx @ js ''-'' @ source;
          tgt_key = sfx @ js ''-'' @ target
      in case map_of data src_key of
           Some v \<Rightarrow> copyKeysLoop rest source target (AList.update tgt_key v data)
                       (copied @ [tgt_key])
         | None \<Rightarrow> copyKeysLoop rest source target data copied)"

text \<open>
  The whole script: \<open>Inl\<close> what it writes to standard error before it exits with status
  1, \<open>Inr\<close> what it prints, and the dictionary the file holds afterwards.  When nothing was
  copied the script exits before it writes the file.  Otherwise \<^verbatim>\<open>plistlib.dump\<close> writes
  the dictionary with its keys in sorted order (\<^verbatim>\<open>sort_keys\<close> is on by default).
\<close>

definition copyScript ::
  "'v store \<Rightarrow> jsstring list \<Rightarrow> jsstring \<Rightarrow> jsstring \<Rightarrow> (jsstring + jsstring) \<times> 'v store" where
  "copyScript data suffixList source target =
     (case copyKeysLoop suffixList source target data [] of
        (data', copied) \<Rightarrow>
          if copied = [] then
            (Inl (js ''ERROR: no source keys found for: '' @ source @ [10]), data)
          else
            (Inr (joinWith [10] copied @ [10]), sort_key (\<lambda>kv. codePoints (fst kv)) data'))"

record CopyKeysResult =
  ok :: bool
  keysCopied :: "jsstring list"
  copyError :: "jsstring option"

text \<open>
  \<^verbatim>\<open>copyPlistKeys\<close>, returning its result and the dictionary the preference file holds
  afterwards.  The property \<^verbatim>\<open>error\<close> of the result is the field \<open>copyError\<close>.
\<close>

definition copyPlistKeys ::
  "('v, 'w) LayoutEnv \<Rightarrow> 'v store \<Rightarrow> jsstring list \<Rightarrow> jsstring \<Rightarrow> jsstring \<Rightarrow>
   CopyKeysResult \<times> 'v store" where
  "copyPlistKeys env data suffixList sourceBaseName targetBaseName =
     (case (if pyPlain sourceBaseName \<and> pyPlain targetBaseName \<and> list_all pyPlain suffixList
            then (case copyScript data suffixList sourceBaseName targetBaseName of
                    (Inl err, data') \<Rightarrow>
                      (Inl (failureMessage env suffixList sourceBaseName targetBaseName err), data')
                  | (Inr result, data') \<Rightarrow> (Inr result, data'))
            else copyOther env data suffixList sourceBaseName targetBaseName) of
        (Inr result, data') \<Rightarrow>
          (\<lparr>ok = True, keysCopied = filter (\<lambda>l. l \<noteq> []) (splitLines (trim result)),
            copyError = None\<rparr>, data')
      | (Inl msg, data') \<Rightarrow>
          (\<lparr>ok = False, keysCopied = [], copyError = Some msg\<rparr>, data'))"

definition LAYOUT_PREFIXES :: "jsstring list" where
  "LAYOUT_PREFIXES =
     [js ''ListColumnsHorizontal-'',
      js ''TableView Columns ListColumnsHorizontal-'',
      js ''TableView Column Widths ListColumnsHorizontal-'']"

definition LAYOUT_SUFFIXES :: "jsstring list" where
  "LAYOUT_SUFFIXES =
     [js ''ListColumnsHorizontal'',
      js ''TableView Columns ListColumnsHorizontal'',
      js ''TableView Column Widths ListColumnsHorizontal'']"

record LayoutKeys =
  columnsKey :: jsstring
  tableViewColumnsKey :: jsstring
  tableViewWidthsKey :: jsstring

definition keysForName :: "jsstring \<Rightarrow> LayoutKeys" where
  "keysForName baseName =
     \<lparr>columnsKey = js ''ListColumnsHorizontal-'' @ baseName,
      tableViewColumnsKey = js ''TableView Columns ListColumnsHorizontal-'' @ baseName,
      tableViewWidthsKey = js ''TableView Column Widths ListColumnsHorizontal-'' @ baseName\<rparr>"

text \<open>
  \<^verbatim>\<open>ColumnLayoutResult\<close>; its property \<^verbatim>\<open>name\<close> is the field \<open>layoutName\<close>.  The widths
  are kept as \<^verbatim>\<open>parsePlistBuddyDict\<close> returns them, a parameter \<open>parseDict\<close> of the
  model with a result type \<open>'w\<close>.
\<close>

record 'w ColumnLayoutResult =
  found :: bool
  layoutName :: jsstring
  resolvedKey :: jsstring
  columns :: "jsstring list option"
  tableViewColumns :: "jsstring list option"
  widths :: "'w option"
  keysFound :: "jsstring list"

definition readLayoutForName ::
  "('v, 'w) LayoutEnv \<Rightarrow> 'v store \<Rightarrow> jsstring \<Rightarrow> 'w ColumnLayoutResult option" where
  "readLayoutForName env data baseName =
     (let keys = keysForName baseName;
          rawColumns = plistRead env data (columnsKey keys);
          rawTableViewColumns = plistRead env data (tableViewColumnsKey keys);
          rawWidths = plistRead env data (tableViewWidthsKey keys)
      in if falsy rawColumns \<and> falsy rawTableViewColumns \<and> falsy rawWidths then None
         else Some
           \<lparr>found = True, layoutName = baseName, resolvedKey = baseName,
            columns = (if falsy rawColumns then None
                       else Some (parsePlistBuddyArray (nullish rawColumns []))),
            tableViewColumns = (if falsy rawTableViewColumns then None
                       else Some (parsePlistBuddyArray (nullish rawTableViewColumns []))),
            widths = (if falsy rawWidths then None
                       else Some (parseDict env (nullish rawWidths []))),
            keysFound = (if falsy rawColumns then [] else [columnsKey keys]) @
                        (if falsy rawTableViewColumns then [] else [tableViewColumnsKey keys]) @
                        (if falsy rawWidths then [] else [tableViewWidthsKey keys])\<rparr>)"

definition getExistingNames :: "('v, 'w) LayoutEnv \<Rightarrow> 'v store \<Rightarrow> nat \<Rightarrow> jsstring list" where
  "getExistingNames env data limit = getPlistKeysByPrefix env data LAYOUT_PREFIXES limit"

text \<open>\<^verbatim>\<open>hay.includes(needle)\<close>\<close>

definition stringIncludes :: "jsstring \<Rightarrow> jsstring \<Rightarrow> bool" where
  "stringIncludes hay needle \<longleftrightarrow> indexOf0 needle hay \<noteq> None"

definition findMatchingNames :: "('v, 'w) LayoutEnv \<Rightarrow> 'v store \<Rightarrow> jsstring \<Rightarrow> jsstring list" where
  "findMatchingNames env data searchTerm =
     (let allNames = getExistingNames env data 200;
          lower = toLowerCase env searchTerm
      in filter (\<lambda>n. stringIncludes (toLowerCase env n) lower) allNames)"

text \<open>
  The result of \<^verbatim>\<open>get_column_layout\<close>: the spread \<^verbatim>\<open>ColumnLayoutResult\<close> is the field
  \<open>layout\<close>, the property \<^verbatim>\<open>name\<close> of a failure is the field \<open>queriedName\<close>, and
  the property \<^verbatim>\<open>note\<close> is the field \<open>noteText\<close>.
\<close>

record 'w GetColumnLayoutResult = ToolResult +
  layout :: "'w ColumnLayoutResult option"
  queriedName :: "jsstring option"
  nameSearched :: "jsstring option"
  noteText :: "jsstring option"
  partialMatches :: "jsstring list option"
  exampleNames :: "jsstring list option"

definition dq :: jsstring where
  "dq = [34]"

text \<open>
  \<^verbatim>\<open>getColumnLayout\<close>.  An argument that is absent or not a string is \<open>None\<close>.
\<close>

definition getColumnLayout ::
  "('v, 'w) LayoutEnv \<Rightarrow> 'v store \<Rightarrow> jsstring option \<Rightarrow> jsstring option \<Rightarrow>
   'w GetColumnLayoutResult" where
  "getColumnLayout env data nameArg uuidArg =
     (if falsy nameArg then
        \<lparr>success = False, error = Some (js ''name parameter is required''), layout = None,
         queriedName = None, nameSearched = None, noteText = None, partialMatches = None,
         exampleNames = None\<rparr>
      else
        (let name = nullish nameArg [] in
         case readLayoutForName env data name of
           Some exactResult \<Rightarrow>
             \<lparr>success = True, error = None, layout = Some exactResult, queriedName = None,
              nameSearched = None, noteText = None, partialMatches = None, exampleNames = None\<rparr>
         | None \<Rightarrow>
            (case (if falsy uuidArg then None else readLayoutForName env data (nullish uuidArg [])) of
               Some uuidResult \<Rightarrow>
                 \<lparr>success = True, error = None,
                  layout = Some (uuidResult\<lparr>layoutName := name\<rparr>), queriedName = None,
                  nameSearched = None, noteText = None, partialMatches = None, exampleNames = None\<rparr>
             | None \<Rightarrow>
                (let fuzzyMatches = findMatchingNames env data name in
                 case (if length fuzzyMatches = 1
                       then readLayoutForName env data (hd fuzzyMatches) else None) of
                   Some fuzzyResult \<Rightarrow>
                     \<lparr>success = True, error = None, layout = Some fuzzyResult,
                      queriedName = None, nameSearched = Some name,
                      noteText = Some (js ''Exact name not found; matched '' @ dq @ hd fuzzyMatches @
                                   dq @ js '' via partial search''),
                      partialMatches = None, exampleNames = None\<rparr>
                 | None \<Rightarrow>
                    (let examples = getExistingNames env data 15 in
                     if length fuzzyMatches > 1 then
                       \<lparr>success = False,
                        error = Some (js ''No exact match for '' @ dq @ name @ dq @
                          js ''. Multiple partial matches found '' @ [8212] @ js '' be more specific.''),
                        layout = None, queriedName = Some name, nameSearched = None,
                        noteText = None, partialMatches = Some fuzzyMatches, exampleNames = None\<rparr>
                     else
                       \<lparr>success = False,
                        error = Some (js ''No column layout found for '' @ dq @ name @ dq @
                          js ''. This smart group may not have a custom layout yet (it will use defaults). Use copy_column_layout to copy an existing layout to it.''),
                        layout = None, queriedName = Some name, nameSearched = None,
                        noteText = None, partialMatches = None,
                        exampleNames = Some examples\<rparr>)))))"

text \<open>
  The source resolution of \<^verbatim>\<open>copyColumnLayout\<close>: \<open>Inr\<close> the value of
  \<^verbatim>\<open>resolvedSourceKey\<close> after the \<^verbatim>\<open>if\<close> chain, \<open>Inl\<close> the list \<^verbatim>\<open>fuzzy\<close> when the
  chain returns the ambiguity failure.
\<close>

definition resolveSource ::
  "('v, 'w) LayoutEnv \<Rightarrow> 'v store \<Rightarrow> jsstring \<Rightarrow> jsstring option \<Rightarrow>
   jsstring list + jsstring option" where
  "resolveSource env data sourceName sourceUuid =
     (if readLayoutForName env data sourceName \<noteq> None then Inr (Some sourceName)
      else if \<not> falsy sourceUuid \<and> readLayoutForName env data (nullish sourceUuid []) \<noteq> None
      then Inr sourceUuid
      else
        (let fuzzy = findMatchingNames env data sourceName in
         if length fuzzy = 1 \<and> readLayoutForName env data (hd fuzzy) \<noteq> None
         then Inr (Some (hd fuzzy))
         else if length fuzzy > 1 then Inl fuzzy
         else Inr None))"

record CopyColumnLayoutResult = ToolResult +
  sourceName :: "jsstring option"
  targetName :: "jsstring option"
  resolvedSourceKey :: "jsstring option"
  resolvedTargetKey :: "jsstring option"
  copiedKeys :: "jsstring list option"
  message :: "jsstring option"

text \<open>
  \<^verbatim>\<open>copyColumnLayout\<close>, returning its result and the dictionary the preference file holds
  afterwards.  The property \<^verbatim>\<open>keysCopied\<close> of the result is the field \<open>copiedKeys\<close>.
\<close>

definition copyColumnLayout ::
  "('v, 'w) LayoutEnv \<Rightarrow> 'v store \<Rightarrow> jsstring option \<Rightarrow> jsstring option \<Rightarrow>
   jsstring option \<Rightarrow> jsstring option \<Rightarrow> CopyColumnLayoutResult \<times> 'v store" where
  "copyColumnLayout env data sourceNameArg targetNameArg sourceUuid targetUuid =
     (if falsy sourceNameArg then
        (\<lparr>success = False, error = Some (js ''sourceName parameter is required''),
          sourceName = None, targetName = None, resolvedSourceKey = None,
          resolvedTargetKey = None, copiedKeys = None, message = None\<rparr>, data)
      else if falsy targetNameArg then
        (\<lparr>success = False, error = Some (js ''targetName parameter is required''),
          sourceName = None, targetName = None, resolvedSourceKey = None,
          resolvedTargetKey = None, copiedKeys = None, message = None\<rparr>, data)
      else
        (let sourceName = nullish sourceNameArg []; targetName = nullish targetNameArg [] in
         case resolveSource env data sourceName sourceUuid of
           Inl fuzzy \<Rightarrow>
             (\<lparr>success = False,
               error = Some (js ''Ambiguous source name '' @ dq @ sourceName @ dq @
                 js ''. Multiple matches: '' @ joinWith (js '', '') (take 8 fuzzy)),
               sourceName = Some sourceName, targetName = Some targetName,
               resolvedSourceKey = None, resolvedTargetKey = None, copiedKeys = None,
               message = None\<rparr>, data)
         | Inr resolved \<Rightarrow>
             if falsy resolved then
               (let examples = getExistingNames env data 10 in
                (\<lparr>success = False,
                  error = Some (js ''Source column layout for '' @ dq @ sourceName @ dq @
                    js '' not found. This smart group may not have a custom layout saved yet. Known layouts include: '' @
                    joinWith (js '', '') (take 8 examples)),
                  sourceName = Some sourceName, targetName = Some targetName,
                  resolvedSourceKey = None, resolvedTargetKey = None, copiedKeys = None,
                  message = None\<rparr>, data))
             else
               (let resolvedSourceKey = nullish resolved [];
                    resolvedTargetKey = nullish targetUuid targetName
                in case copyPlistKeys env data LAYOUT_SUFFIXES resolvedSourceKey resolvedTargetKey of
                  (copyResult, data') \<Rightarrow>
                    if \<not> ok copyResult then
                      (\<lparr>success = False,
                        error = Some (js ''Copy failed: '' @ nullish (copyError copyResult) []),
                        sourceName = Some sourceName, targetName = Some targetName,
                        resolvedSourceKey = Some resolvedSourceKey,
                        resolvedTargetKey = Some resolvedTargetKey, copiedKeys = None,
                        message = None\<rparr>, data')
                    else
                      (case readLayoutForName env data' resolvedTargetKey of
                         None \<Rightarrow>
                           (\<lparr>success = False,
                             error = Some (js ''Copy appeared to succeed but target keys not readable after write''),
                             sourceName = Some sourceName, targetName = Some targetName,
                             resolvedSourceKey = Some resolvedSourceKey,
                             resolvedTargetKey = Some resolvedTargetKey, copiedKeys = None,
                             message = None\<rparr>, data')
                       | Some verification \<Rightarrow>
                           (\<lparr>success = True, error = None,
                             sourceName = Some sourceName, targetName = Some targetName,
                             resolvedSourceKey = Some resolvedSourceKey,
                             resolvedTargetKey = Some resolvedTargetKey,
                             copiedKeys = Some (keysCopied copyResult),
                             message = Some (js ''Copied column layout from '' @ dq @ sourceName @
                               dq @ js '' to '' @ dq @ targetName @ dq @ js ''. Keys written: '' @
                               joinWith (js '', '') (keysCopied copyResult) @
                               js ''. Columns: ['' @
                               (case columns verification of
                                  Some cs \<Rightarrow> joinWith (js '', '') cs
                                | None \<Rightarrow> js ''n/a'') @
                               js '']. Restart DEVONthink or close/reopen the smart group window for the change to take effect.'')\<rparr>,
                            data')))))"

section \<open>tools/custom/parse-eml-headers.ts\<close>

text \<open>
  The platform functions the parser calls: \<^verbatim>\<open>String.prototype.toLowerCase\<close>,
  \<^verbatim>\<open>Buffer.from(text, "base64")\<close>, and \<^verbatim>\<open>buffer.toString(encoding)\<close>, which throws for
  an encoding name it does not know (\<open>None\<close>).  Bytes are numbers below 256.
\<close>

record EmlEnv =
  lowerCase :: "jsstring \<Rightarrow> jsstring"
  bufferFromBase64 :: "jsstring \<Rightarrow> nat list"
  bufferToString :: "jsstring \<Rightarrow> nat list \<Rightarrow> jsstring option"

subsection \<open>decodeEncodedWords\<close>

text \<open>
  \<^verbatim>\<open>=\?([^?]+)\?([BbQq])\?([^?]*)\?=\<close> anchored at the start of a string: the three
  groups and what follows the match.  The classes exclude \<^verbatim>\<open>?\<close>, which must follow
  them, so the greedy match is the only one.
\<close>

definition matchEncodedWord :: "jsstring \<Rightarrow> (jsstring \<times> nat \<times> jsstring \<times> jsstring) option" where
  "matchEncodedWord s =
     (case stripPrefix (js ''=?'') s of
        None \<Rightarrow> None
      | Some r1 \<Rightarrow>
          (let charset = takeWhile (\<lambda>c. c \<noteq> 63) r1 in
           if charset = [] then None
           else
             (case dropWhile (\<lambda>c. c \<noteq> 63) r1 of
                q1 # encoding # q2 # r2 \<Rightarrow>
                  if q1 = 63 \<and> encoding \<in> {66, 98, 81, 113} \<and> q2 = 63 then
                    (case stripPrefix (js ''?='') (dropWhile (\<lambda>c. c \<noteq> 63) r2) of
                       Some rest \<Rightarrow> Some (charset, encoding, takeWhile (\<lambda>c. c \<noteq> 63) r2, rest)
                     | None \<Rightarrow> None)
                  else None
              | _ \<Rightarrow> None)))"

definition isHexDigit :: "nat \<Rightarrow> bool" where
  "isHexDigit c \<longleftrightarrow> (48 \<le> c \<and> c \<le> 57) \<or> (65 \<le> c \<and> c \<le> 70) \<or> (97 \<le> c \<and> c \<le> 102)"

definition hexValue :: "nat \<Rightarrow> nat" where
  "hexValue c = (if c \<le> 57 then c - 48 else if c \<le> 70 then c - 55 else c - 87)"

text \<open>\<^verbatim>\<open>.replace(/=([0-9A-Fa-f]{2})/g, (_m, h) => String.fromCharCode(parseInt(h, 16)))\<close>\<close>

fun hexEscapes :: "jsstring \<Rightarrow> jsstring" where
  "hexEscapes (c # h1 # h2 # cs) =
     (if c = 61 \<and> isHexDigit h1 \<and> isHexDigit h2
      then (hexValue h1 * 16 + hexValue h2) # hexEscapes cs
      else c # hexEscapes (h1 # h2 # cs))"
| "hexEscapes cs = cs"

text \<open>
  The replacement function of \<^verbatim>\<open>decodeEncodedWords\<close>, applied to the matched text and
  its three groups: first its constants \<^verbatim>\<open>bytes\<close> and \<^verbatim>\<open>csNorm\<close>.
  \<^verbatim>\<open>encoding.toUpperCase()\<close> is \<^verbatim>\<open>B\<close> for the groups \<^verbatim>\<open>B\<close> and \<^verbatim>\<open>b\<close>.
  \<^verbatim>\<open>Buffer.from(decoded, "binary")\<close> keeps the low byte of each code unit.  The only
  statement of the \<^verbatim>\<open>try\<close> block that can throw is \<^verbatim>\<open>bytes.toString(csNorm)\<close>; the
  \<^verbatim>\<open>catch\<close> returns the matched text.
\<close>

definition wordBytes :: "EmlEnv \<Rightarrow> nat \<Rightarrow> jsstring \<Rightarrow> nat list" where
  "wordBytes env encoding text =
     (if encoding = 66 \<or> encoding = 98 then bufferFromBase64 env text
      else map (\<lambda>c. c mod 256) (hexEscapes (map (\<lambda>c. if c = 95 then 32 else c) text)))"

definition csNorm :: "EmlEnv \<Rightarrow> jsstring \<Rightarrow> jsstring" where
  "csNorm env charset =
     (let csLower = lowerCase env charset in
      if csLower = js ''us-ascii'' then js ''ascii''
      else if csLower = js ''iso-8859-1'' \<or> csLower = js ''iso-8859-15'' then js ''latin1''
      else if csLower \<noteq> [] then csLower else js ''utf-8'')"

definition decodeWord :: "EmlEnv \<Rightarrow> jsstring \<Rightarrow> jsstring \<Rightarrow> nat \<Rightarrow> jsstring \<Rightarrow> jsstring" where
  "decodeWord env matched charset encoding text =
     (case bufferToString env (csNorm env charset) (wordBytes env encoding text) of
        Some decoded \<Rightarrow> decoded
      | None \<Rightarrow> matched)"

lemma stripPrefix_length: "stripPrefix p s = Some r \<Longrightarrow> length r + length p = length s"
  by (induction p s rule: stripPrefix.induct) (auto split: if_splits)

lemma matchEncodedWord_shorter:
  assumes "matchEncodedWord s = Some (charset, encoding, text, rest)"
  shows "length rest < length s"
proof -
  from assms obtain r1 where r1: "stripPrefix (js ''=?'') s = Some r1"
    by (auto simp: matchEncodedWord_def split: option.splits)
  from assms r1 obtain q1 q2 r2 where
    r2: "dropWhile (\<lambda>c. c \<noteq> 63) r1 = q1 # encoding # q2 # r2"
    by (auto simp: matchEncodedWord_def Let_def split: option.splits if_splits list.splits)
  from assms r1 r2 have r3: "stripPrefix (js ''?='') (dropWhile (\<lambda>c. c \<noteq> 63) r2) = Some rest"
    by (auto simp: matchEncodedWord_def Let_def split: option.splits if_splits)
  have "length rest \<le> length (dropWhile (\<lambda>c. c \<noteq> 63) r2)"
    using stripPrefix_length[OF r3] by simp
  also have "\<dots> \<le> length r2" by (rule length_dropWhile_le)
  also have "\<dots> < length (dropWhile (\<lambda>c. c \<noteq> 63) r1)" by (simp add: r2)
  also have "\<dots> \<le> length r1" by (rule length_dropWhile_le)
  also have "\<dots> \<le> length s" using stripPrefix_length[OF r1] by simp
  finally show ?thesis .
qed

text \<open>
  \<^verbatim>\<open>input.replace(/.../g, f)\<close>: the matches are found from left to right, the search
  continuing after each match; what lies between matches is kept.
\<close>

function decodeEncodedWords :: "EmlEnv \<Rightarrow> jsstring \<Rightarrow> jsstring" where
  "decodeEncodedWords env [] = []"
| "decodeEncodedWords env (c # cs) =
     (case matchEncodedWord (c # cs) of
        Some (charset, encoding, text, rest) \<Rightarrow>
          decodeWord env (take (length (c # cs) - length rest) (c # cs)) charset encoding text @
          decodeEncodedWords env rest
      | None \<Rightarrow> c # decodeEncodedWords env cs)"
  by pat_completeness auto
termination
  by (relation "measure (\<lambda>(env, s). length s)") (auto dest!: matchEncodedWord_shorter)

subsection \<open>parseHeaders\<close>

text \<open>\<^verbatim>\<open>headerSection.replace(/\r\n/g, "\n")\<close>\<close>

fun normaliseCRLF :: "jsstring \<Rightarrow> jsstring" where
  "normaliseCRLF (c # d # cs) =
     (if c = 13 \<and> d = 10 then 10 # normaliseCRLF cs else c # normaliseCRLF (d # cs))"
| "normaliseCRLF cs = cs"

definition isSpaceOrTab :: "nat \<Rightarrow> bool" where
  "isSpaceOrTab c \<longleftrightarrow> c = 32 \<or> c = 9"

text \<open>\<^verbatim>\<open>currentValue.replace(/\n[ \t]+/g, " ")\<close>\<close>

function unfoldValue :: "jsstring \<Rightarrow> jsstring" where
  "unfoldValue [] = []"
| "unfoldValue (c # cs) =
     (if c = 10 \<and> takeWhile isSpaceOrTab cs \<noteq> [] then 32 # unfoldValue (dropWhile isSpaceOrTab cs)
      else c # unfoldValue cs)"
  by pat_completeness auto
termination
  by (relation "measure length") (auto simp: less_Suc_eq_le length_dropWhile_le)

text \<open>
  The variables of \<^verbatim>\<open>parseHeaders\<close> that its loop and the closure \<^verbatim>\<open>flush\<close> share.  The
  \<^verbatim>\<open>Map\<close> is read by key only, so it is a partial function.
\<close>

record HeaderState =
  currentName :: "jsstring option"
  currentValue :: jsstring
  headers :: "jsstring \<rightharpoonup> jsstring"

text \<open>\<^verbatim>\<open>flush\<close>: the map \<^verbatim>\<open>headers\<close> after the call.\<close>

definition flush :: "(jsstring \<Rightarrow> jsstring) \<Rightarrow> HeaderState \<Rightarrow> (jsstring \<rightharpoonup> jsstring)" where
  "flush lower st =
     (case currentName st of
        None \<Rightarrow> headers st
      | Some n \<Rightarrow>
          (let unfolded = trim (unfoldValue (currentValue st));
               key = lower n
           in case headers st key of
                Some old \<Rightarrow> (headers st)(key \<mapsto> old @ [10] @ unfolded)
              | None \<Rightarrow> (headers st)(key \<mapsto> unfolded)))"

text \<open>The \<^verbatim>\<open>for (const line of lines)\<close> loop: the state when the loop is left.\<close>

fun headerLoop :: "(jsstring \<Rightarrow> jsstring) \<Rightarrow> jsstring list \<Rightarrow> HeaderState \<Rightarrow> HeaderState" where
  "headerLoop lower [] st = st"
| "headerLoop lower (line # rest) st =
     (if line = [] then st
      else if hd line = 32 \<or> hd line = 9 then
        (if currentName st \<noteq> None
         then headerLoop lower rest (st\<lparr>currentValue := currentValue st @ [10] @ line\<rparr>)
         else headerLoop lower rest st)
      else
        (let flushed = flush lower st in
         case indexOf line (js '':'') 0 of
           Some colonIdx \<Rightarrow>
             if colonIdx > 0 then
               headerLoop lower rest
                 \<lparr>currentName = Some (trim (slice line 0 colonIdx)),
                  currentValue = slice line (colonIdx + 1) (length line),
                  headers = flushed\<rparr>
             else headerLoop lower rest \<lparr>currentName = None, currentValue = [], headers = flushed\<rparr>
         | None \<Rightarrow>
             headerLoop lower rest \<lparr>currentName = None, currentValue = [], headers = flushed\<rparr>))"

definition parseHeaders :: "(jsstring \<Rightarrow> jsstring) \<Rightarrow> jsstring \<Rightarrow> (jsstring \<rightharpoonup> jsstring)" where
  "parseHeaders lower headerSection =
     (let normalised = normaliseCRLF headerSection;
          lines = splitLines normalised
      in flush lower (headerLoop lower lines
           \<lparr>currentName = None, currentValue = [], headers = Map.empty\<rparr>))"

subsection \<open>parseReferences\<close>

text \<open>\<^verbatim>\<open>raw.match(/<[^>]+>/g) ?? []\<close>: the matches from left to right.\<close>

function parseReferences :: "jsstring \<Rightarrow> jsstring list" where
  "parseReferences [] = []"
| "parseReferences (c # cs) =
     (if c = 60 \<and> takeWhile (\<lambda>x. x \<noteq> 62) cs \<noteq> [] \<and> dropWhile (\<lambda>x. x \<noteq> 62) cs \<noteq> []
      then (c # takeWhile (\<lambda>x. x \<noteq> 62) cs @ [62]) #
           parseReferences (tl (dropWhile (\<lambda>x. x \<noteq> 62) cs))
      else parseReferences cs)"
  by pat_completeness auto
termination
proof (relation "measure length")
  fix c :: nat and cs :: jsstring
  have "length (tl (dropWhile (\<lambda>x. x \<noteq> 62) cs)) \<le> length cs"
    using length_dropWhile_le[of "\<lambda>x. x \<noteq> 62" cs] by simp
  then show "(tl (dropWhile (\<lambda>x. x \<noteq> 62) cs), c # cs) \<in> measure length" by simp
qed simp_all

subsection \<open>parseEmlHeaders\<close>

text \<open>
  \<^verbatim>\<open>EmlHeadersResult\<close>.  The properties \<^verbatim>\<open>from\<close>, \<^verbatim>\<open>to\<close>, \<^verbatim>\<open>cc\<close> and \<^verbatim>\<open>date\<close> are
  the fields \<open>fromHeader\<close>, \<open>toHeader\<close>, \<open>ccHeader\<close> and \<open>dateHeader\<close>; \<open>references\<close> is
  \<open>None\<close> where the result has no such property.
\<close>

record EmlHeadersResult = ToolResult +
  filePath :: "jsstring option"
  messageId :: "jsstring option"
  inReplyTo :: "jsstring option"
  references :: "jsstring list option"
  subject :: "jsstring option"
  fromHeader :: "jsstring option"
  toHeader :: "jsstring option"
  ccHeader :: "jsstring option"
  dateHeader :: "jsstring option"

text \<open>Lines 133 to 143: the header section of what was read.\<close>

definition headerSectionOf :: "jsstring \<Rightarrow> jsstring" where
  "headerSectionOf rawContent =
     (let crlf = indexOf rawContent [13, 10, 13, 10] 0;
          lf = indexOf rawContent [10, 10] 0
      in case crlf of
           Some c \<Rightarrow>
             (case lf of
                None \<Rightarrow> slice rawContent 0 c
              | Some l \<Rightarrow> if c < l then slice rawContent 0 c else slice rawContent 0 l)
         | None \<Rightarrow>
             (case lf of
                Some l \<Rightarrow> slice rawContent 0 l
              | None \<Rightarrow> rawContent))"

text \<open>The closure \<^verbatim>\<open>get\<close>.\<close>

definition getHeader :: "EmlEnv \<Rightarrow> (jsstring \<rightharpoonup> jsstring) \<Rightarrow> jsstring \<Rightarrow> jsstring option" where
  "getHeader env hs headerName =
     (case hs headerName of
        Some val \<Rightarrow> Some (decodeEncodedWords env (trim val))
      | None \<Rightarrow> None)"

definition emlFailure :: "jsstring option \<Rightarrow> jsstring \<Rightarrow> EmlHeadersResult" where
  "emlFailure path msg =
     \<lparr>success = False, error = Some msg, filePath = path, messageId = None, inReplyTo = None,
      references = None, subject = None, fromHeader = None, toHeader = None, ccHeader = None,
      dateHeader = None\<rparr>"

text \<open>
  \<^verbatim>\<open>parseEmlHeaders\<close>.  \<open>filePathArg\<close> is the argument if it is a string, \<open>fileExists\<close>
  the answer of \<^verbatim>\<open>existsSync\<close>, and \<open>readOutcome\<close> the outcome of reading the file:
  \<open>Inl\<close> the message of the error, \<open>Inr\<close> the first 65536 bytes decoded as UTF-8.
\<close>

definition parseEmlHeaders ::
  "EmlEnv \<Rightarrow> jsstring option \<Rightarrow> bool \<Rightarrow> jsstring + jsstring \<Rightarrow> EmlHeadersResult" where
  "parseEmlHeaders env filePathArg fileExists readOutcome =
     (if falsy filePathArg then
        emlFailure None (js ''filePath parameter is required and must be a string'')
      else if \<not> fileExists then
        emlFailure filePathArg (js ''File not found: '' @ nullish filePathArg [])
      else
        (case readOutcome of
           Inl msg \<Rightarrow> emlFailure filePathArg (js ''Failed to read file: '' @ msg)
         | Inr rawContent \<Rightarrow>
             (let headerSection = headerSectionOf rawContent;
                  hs = parseHeaders (lowerCase env) headerSection;
                  referencesRaw = getHeader env hs (js ''references'')
              in \<lparr>success = True, error = None, filePath = filePathArg,
                  messageId = getHeader env hs (js ''message-id''),
                  inReplyTo = getHeader env hs (js ''in-reply-to''),
                  references = Some (if falsy referencesRaw then []
                                     else parseReferences (nullish referencesRaw [])),
                  subject = getHeader env hs (js ''subject''),
                  fromHeader = getHeader env hs (js ''from''),
                  toHeader = getHeader env hs (js ''to''),
                  ccHeader = getHeader env hs (js ''cc''),
                  dateHeader = getHeader env hs (js ''date'')\<rparr>)))"

subsection \<open>The Buffer functions of Node.js\<close>

text \<open>
  A model of the two Buffer functions, after the documentation of Node.js, to run the
  parser with.  Decoding base64 skips the characters outside the two base64 alphabets and
  stops at the first \<^verbatim>\<open>=\<close>; a final group of two or three characters gives one or two
  bytes.
\<close>

definition base64Value :: "nat \<Rightarrow> nat option" where
  "base64Value c =
     (if 65 \<le> c \<and> c \<le> 90 then Some (c - 65)
      else if 97 \<le> c \<and> c \<le> 122 then Some (c - 71)
      else if 48 \<le> c \<and> c \<le> 57 then Some (c + 4)
      else if c = 43 \<or> c = 45 then Some 62
      else if c = 47 \<or> c = 95 then Some 63
      else None)"

fun sextetsToBytes :: "nat list \<Rightarrow> nat list" where
  "sextetsToBytes (a # b # c # d # rest) =
     (a * 4 + b div 16) # ((b mod 16) * 16 + c div 4) # ((c mod 4) * 64 + d) # sextetsToBytes rest"
| "sextetsToBytes [a, b, c] = [a * 4 + b div 16, (b mod 16) * 16 + c div 4]"
| "sextetsToBytes [a, b] = [a * 4 + b div 16]"
| "sextetsToBytes _ = []"

definition nodeFromBase64 :: "jsstring \<Rightarrow> nat list" where
  "nodeFromBase64 text =
     sextetsToBytes (List.map_filter base64Value (takeWhile (\<lambda>c. c \<noteq> 61) text))"

text \<open>
  Decoding UTF-8 follows the decoder of the Encoding Standard: a byte that cannot start or
  continue a sequence yields U+FFFD, and a byte that breaks a sequence is read again as
  the start of the next one.  The state is the code point collected so far, the number
  of bytes still needed, and the range the next byte must lie in.
\<close>

datatype utf8Lead = Single nat | Lead nat nat nat nat | Invalid

definition utf8Lead :: "nat \<Rightarrow> utf8Lead" where
  "utf8Lead b =
     (if b \<le> 127 then Single b
      else if 194 \<le> b \<and> b \<le> 223 then Lead (b mod 32) 1 128 191
      else if 224 \<le> b \<and> b \<le> 239 then
        Lead (b mod 16) 2 (if b = 224 then 160 else 128) (if b = 237 then 159 else 191)
      else if 240 \<le> b \<and> b \<le> 244 then
        Lead (b mod 8) 3 (if b = 240 then 144 else 128) (if b = 244 then 143 else 191)
      else Invalid)"

fun utf8Decode :: "(nat \<times> nat \<times> nat \<times> nat) option \<Rightarrow> nat list \<Rightarrow> nat list" where
  "utf8Decode None [] = []"
| "utf8Decode (Some pending) [] = [65533]"
| "utf8Decode None (b # bs) =
     (case utf8Lead b of
        Single c \<Rightarrow> c # utf8Decode None bs
      | Lead cp n lo hi \<Rightarrow> utf8Decode (Some (cp, n, lo, hi)) bs
      | Invalid \<Rightarrow> 65533 # utf8Decode None bs)"
| "utf8Decode (Some (cp, n, lo, hi)) (b # bs) =
     (if b < lo \<or> hi < b then
        65533 #
        (case utf8Lead b of
           Single c \<Rightarrow> c # utf8Decode None bs
         | Lead cp' n' lo' hi' \<Rightarrow> utf8Decode (Some (cp', n', lo', hi')) bs
         | Invalid \<Rightarrow> 65533 # utf8Decode None bs)
      else if n = 1 then (cp * 64 + b mod 64) # utf8Decode None bs
      else utf8Decode (Some (cp * 64 + b mod 64, n - 1, 128, 191)) bs)"

text \<open>A code point as UTF-16 code units.\<close>

definition codeUnits :: "nat \<Rightarrow> nat list" where
  "codeUnits cp =
     (if cp < 65536 then [cp]
      else [55296 + (cp - 65536) div 1024, 56320 + (cp - 65536) mod 1024])"

fun utf16leDecode :: "nat list \<Rightarrow> nat list" where
  "utf16leDecode (lo # hi # bs) = (lo + 256 * hi) # utf16leDecode bs"
| "utf16leDecode _ = []"

definition hexDigit :: "nat \<Rightarrow> nat" where
  "hexDigit v = (if v < 10 then 48 + v else 87 + v)"

definition base64Char :: "bool \<Rightarrow> nat \<Rightarrow> nat" where
  "base64Char url v =
     (if v < 26 then 65 + v else if v < 52 then 71 + v else if v < 62 then v - 4
      else if v = 62 then (if url then 45 else 43) else (if url then 95 else 47))"

fun base64Encode :: "bool \<Rightarrow> nat list \<Rightarrow> nat list" where
  "base64Encode url (a # b # c # rest) =
     [base64Char url (a div 4), base64Char url ((a mod 4) * 16 + b div 16),
      base64Char url ((b mod 16) * 4 + c div 64), base64Char url (c mod 64)] @
     base64Encode url rest"
| "base64Encode url [a, b] =
     [base64Char url (a div 4), base64Char url ((a mod 4) * 16 + b div 16),
      base64Char url ((b mod 16) * 4)] @ (if url then [] else [61])"
| "base64Encode url [a] =
     [base64Char url (a div 4), base64Char url ((a mod 4) * 16)] @
     (if url then [] else [61, 61])"
| "base64Encode url [] = []"

text \<open>
  \<^verbatim>\<open>buffer.toString(encoding)\<close>: the empty buffer gives the empty string before the
  encoding is looked up; otherwise an unknown encoding throws (\<open>None\<close>).
\<close>

definition nodeToString :: "jsstring \<Rightarrow> nat list \<Rightarrow> jsstring option" where
  "nodeToString encoding bytes =
     (if bytes = [] then Some []
      else if encoding = js ''utf8'' \<or> encoding = js ''utf-8'' then
        Some (concat (map codeUnits (utf8Decode None bytes)))
      else if encoding = js ''latin1'' \<or> encoding = js ''binary'' then Some bytes
      else if encoding = js ''ascii'' then Some (map (\<lambda>b. b mod 128) bytes)
      else if encoding = js ''ucs2'' \<or> encoding = js ''ucs-2'' \<or> encoding = js ''utf16le'' \<or>
              encoding = js ''utf-16le'' then Some (utf16leDecode bytes)
      else if encoding = js ''hex'' then
        Some (concat (map (\<lambda>b. [hexDigit (b div 16), hexDigit (b mod 16)]) bytes))
      else if encoding = js ''base64'' then Some (base64Encode False bytes)
      else if encoding = js ''base64url'' then Some (base64Encode True bytes)
      else None)"

text \<open>
  \<open>asciiLower\<close> agrees with \<^verbatim>\<open>toLowerCase\<close> on strings whose letters are ASCII letters.
\<close>

definition asciiLower :: "jsstring \<Rightarrow> jsstring" where
  "asciiLower s = map (\<lambda>c. if 65 \<le> c \<and> c \<le> 90 then c + 32 else c) s"

definition nodeEnv :: EmlEnv where
  "nodeEnv = \<lparr>lowerCase = asciiLower, bufferFromBase64 = nodeFromBase64,
              bufferToString = nodeToString\<rparr>"

section \<open>Top-level block extraction on nested documents\<close>

lemma OPEN_eq: "OPEN = [60, 100, 105, 99, 116, 62]" by (simp add: OPEN_def js_def)
lemma CLOSE_eq: "CLOSE = [60, 47, 100, 105, 99, 116, 62]" by (simp add: CLOSE_def js_def)

lemma indexOf0_skip:
  "c0 \<notin> set ts \<Longrightarrow>
   indexOf0 (c0 # ps) (ts @ rest) = map_option ((+) (length ts)) (indexOf0 (c0 # ps) rest)"
proof (induction ts)
  case Nil
  show ?case by (cases "indexOf0 (c0 # ps) rest") auto
next
  case (Cons a ts)
  then show ?case by (cases "indexOf0 (c0 # ps) rest") auto
qed

lemma indexOf0_text:
  assumes "indexOf0 (c0 # ps) t = None" "c0 \<notin> set ps" "S = [] \<or> hd S = c0"
  shows "indexOf0 (c0 # ps) (t @ S) = map_option ((+) (length t)) (indexOf0 (c0 # ps) S)"
  using assms
proof (induction t)
  case Nil
  then show ?case by (cases "indexOf0 (c0 # ps) S") auto
next
  case (Cons x t)
  from Cons.prems(1) have np: "\<not> prefix (c0 # ps) (x # t)" and nt: "indexOf0 (c0 # ps) t = None"
    by (auto split: if_splits)
  have "\<not> prefix (c0 # ps) ((x # t) @ S)"
  proof
    assume "prefix (c0 # ps) ((x # t) @ S)"
    with np obtain us where us: "c0 # ps = (x # t) @ us" "prefix us S"
      by (auto simp: prefix_append)
    with np have "us \<noteq> []" by auto
    with us(2) Cons.prems(3) have "hd us = c0" by (cases us; cases S) auto
    with \<open>us \<noteq> []\<close> have "c0 \<in> set us" by (cases us) auto
    with us(1) have "c0 \<in> set ps" by auto
    with Cons.prems(2) show False by simp
  qed
  then have "indexOf0 (c0 # ps) ((x # t) @ S) = map_option Suc (indexOf0 (c0 # ps) (t @ S))"
    by (simp only: append_Cons indexOf0.simps if_False)
  also have "\<dots> = map_option Suc (map_option ((+) (length t)) (indexOf0 (c0 # ps) S))"
    using Cons.IH[OF nt Cons.prems(2,3)] by simp
  also have "\<dots> = map_option ((+) (length (x # t))) (indexOf0 (c0 # ps) S)"
    by (cases "indexOf0 (c0 # ps) S") auto
  finally show ?case .
qed

lemma indexOf0_exists: "indexOf0 pat (a @ pat @ b) \<noteq> None"
proof (induction a)
  case Nil
  have "prefix pat (pat @ b)" by simp
  then show ?case by (cases "pat @ b") (simp_all del: prefix_code)
next
  case (Cons x a)
  then show ?case by auto
qed

lemma indexOf_append:
  "indexOf (pre @ s) pat (length pre) = map_option ((+) (length pre)) (indexOf0 pat s)"
  by (simp add: indexOf_def)


datatype doc = Tail jsstring | Block jsstring doc doc

fun render :: "doc \<Rightarrow> jsstring" where
  "render (Tail t) = t"
| "render (Block t c r) = t @ OPEN @ render c @ CLOSE @ render r"

fun topLevel :: "doc \<Rightarrow> jsstring list" where
  "topLevel (Tail t) = []"
| "topLevel (Block t c r) = render c # topLevel r"

definition noOpen :: "jsstring \<Rightarrow> bool" where
  "noOpen t \<longleftrightarrow> indexOf0 OPEN t = None"

definition noClose :: "jsstring \<Rightarrow> bool" where
  "noClose t \<longleftrightarrow> indexOf0 CLOSE t = None"

fun wfNested :: "doc \<Rightarrow> bool" where
  "wfNested (Tail t) \<longleftrightarrow> noOpen t \<and> noClose t"
| "wfNested (Block t c r) \<longleftrightarrow> noOpen t \<and> noClose t \<and> wfNested c \<and> wfNested r"

fun wfTop :: "doc \<Rightarrow> bool" where
  "wfTop (Tail t) \<longleftrightarrow> noOpen t"
| "wfTop (Block t c r) \<longleftrightarrow> noOpen t \<and> wfNested c \<and> wfTop r"

definition tagStart :: "jsstring \<Rightarrow> bool" where
  "tagStart S \<longleftrightarrow> S = [] \<or> hd S = 60"

lemma tagStart_simps [simp]: "tagStart []" "tagStart (OPEN @ r)" "tagStart (CLOSE @ r)"
  by (simp_all add: tagStart_def OPEN_eq CLOSE_eq)

lemma open_text:
  "noOpen t \<Longrightarrow> tagStart S \<Longrightarrow> indexOf0 OPEN (t @ S) = map_option ((+) (length t)) (indexOf0 OPEN S)"
  unfolding noOpen_def tagStart_def OPEN_eq by (rule indexOf0_text) auto

lemma close_text:
  "noClose t \<Longrightarrow> tagStart S \<Longrightarrow> indexOf0 CLOSE (t @ S) = map_option ((+) (length t)) (indexOf0 CLOSE S)"
  unfolding noClose_def tagStart_def CLOSE_eq by (rule indexOf0_text) auto

lemma open_at_open: "indexOf0 OPEN (OPEN @ r) = Some 0"
  by (simp add: OPEN_eq)

lemma close_at_close: "indexOf0 CLOSE (CLOSE @ r) = Some 0"
  by (simp add: CLOSE_eq)

lemma close_at_open: "indexOf0 CLOSE (OPEN @ r) = map_option ((+) 6) (indexOf0 CLOSE r)"
proof -
  have "indexOf0 CLOSE ([100, 105, 99, 116, 62] @ r) = map_option ((+) (length [100, 105, 99, 116, 62 :: nat])) (indexOf0 CLOSE r)"
    unfolding CLOSE_eq by (rule indexOf0_skip) simp
  then show ?thesis
    by (cases "indexOf0 CLOSE r") (auto simp: OPEN_eq CLOSE_eq)
qed

lemma open_at_close: "indexOf0 OPEN (CLOSE @ r) = map_option ((+) 7) (indexOf0 OPEN r)"
proof -
  have "indexOf0 OPEN ([47, 100, 105, 99, 116, 62] @ r) = map_option ((+) (length [47, 100, 105, 99, 116, 62 :: nat])) (indexOf0 OPEN r)"
    unfolding OPEN_eq by (rule indexOf0_skip) simp
  then show ?thesis
    by (cases "indexOf0 OPEN r") (auto simp: OPEN_eq CLOSE_eq)
qed

lemma length_OPEN [simp]: "length OPEN = 6" by (simp add: OPEN_eq)
lemma length_CLOSE [simp]: "length CLOSE = 7" by (simp add: CLOSE_eq)

lemma scanDepth_cong:
  assumes "indexOf xml CLOSE p = indexOf xml CLOSE q" "indexOf xml OPEN p = indexOf xml OPEN q"
  shows "scanDepth xml p d = scanDepth xml q d"
proof (cases "indexOf xml CLOSE p")
  case None
  with assms show ?thesis
    by (simp add: scanDepth.simps[of xml p d] scanDepth.simps[of xml q d])
next
  case (Some c)
  with assms(1) have "p < length xml" "q < length xml"
    using indexOf_bound[of xml CLOSE p c] indexOf_bound[of xml CLOSE q c]
      indexOf_ge[of xml CLOSE p c] indexOf_ge[of xml CLOSE q c] by (auto simp: min_def split: if_splits)
  with assms show ?thesis
    by (simp add: scanDepth.simps[of xml p d] scanDepth.simps[of xml q d] cong: option.case_cong)
qed

lemma indexOf_at:
  "indexOf (pre @ s) pat (length pre) = map_option ((+) (length pre)) (indexOf0 pat s)"
  by (simp add: indexOf_def)

lemma indexOf_at2:
  "indexOf (pre @ t @ s) pat (length pre + length t) = map_option ((+) (length pre + length t)) (indexOf0 pat s)"
  using indexOf_at[of "pre @ t" s pat] by simp

lemma map_option_plus: "map_option ((+) (a::nat)) (map_option ((+) b) x) = map_option ((+) (a + b)) x"
  by (cases x) auto

lemma scan_text:
  assumes "noOpen t" "noClose t" "tagStart S"
  shows "scanDepth (pre @ t @ S) (length pre) d = scanDepth (pre @ t @ S) (length pre + length t) d"
  by (rule scanDepth_cong)
     (simp_all add: indexOf_at indexOf_at2 open_text close_text assms map_option_plus)

lemma scan_at_open:
  assumes "indexOf0 CLOSE r \<noteq> None" "0 < d"
  shows "scanDepth (pre @ OPEN @ r) (length pre) d = scanDepth (pre @ OPEN @ r) (length pre + 6) (d + 1)"
proof -
  from assms(1) obtain c where c: "indexOf0 CLOSE r = Some c" by auto
  have "indexOf (pre @ OPEN @ r) OPEN (length pre) = Some (length pre)"
    by (simp add: indexOf_at open_at_open)
  moreover have "indexOf (pre @ OPEN @ r) CLOSE (length pre) = Some (length pre + 6 + c)"
    by (simp add: indexOf_at close_at_open c)
  ultimately show ?thesis using assms(2)
    by (simp add: scanDepth.simps[of _ "length pre" d])
qed

lemma scan_at_open_stuck:
  assumes "indexOf0 CLOSE r = None"
  shows "scanDepth (pre @ OPEN @ r) (length pre) d = (d, None)"
proof -
  have "indexOf (pre @ OPEN @ r) CLOSE (length pre) = None"
    by (simp add: indexOf_at close_at_open assms)
  then show ?thesis 
    by (simp add: scanDepth.simps[of _ "length pre" d])
qed

lemma scan_at_close:
  assumes "0 < d"
  shows "scanDepth (pre @ CLOSE @ r) (length pre) d =
           (if d = 1 then (0, Some (length pre))
            else scanDepth (pre @ CLOSE @ r) (length pre + 7) (d - 1))"
proof -
  have c: "indexOf (pre @ CLOSE @ r) CLOSE (length pre) = Some (length pre)"
    by (simp add: indexOf_at close_at_close)
  have "indexOf (pre @ CLOSE @ r) OPEN (length pre) = map_option ((+) (length pre + 7)) (indexOf0 OPEN r)"
    by (simp add: indexOf_at open_at_close map_option_plus)
  with c show ?thesis using assms
    by (cases "indexOf0 OPEN r") (auto simp add: scanDepth.simps[of _ "length pre" d])
qed


lemma scan_wf:
  "wfNested c \<Longrightarrow> 0 < d \<Longrightarrow> tagStart S \<Longrightarrow>
   scanDepth (pre @ render c @ S) (length pre) d =
   scanDepth (pre @ render c @ S) (length pre + length (render c)) d"
proof (induction c arbitrary: pre d S)
  case (Tail t)
  then show ?case using scan_text[of t S pre d] by simp
next
  case (Block t c r)
  let ?xml = "pre @ render (Block t c r) @ S"
  let ?p1 = "length pre + length t"
  let ?p2 = "?p1 + 6 + length (render c)"
  from Block.prems have wf: "noOpen t" "noClose t" "wfNested c" "wfNested r" by simp_all
  have "scanDepth ?xml (length pre) d = scanDepth ?xml ?p1 d"
    using scan_text[OF wf(1,2), of "OPEN @ render c @ CLOSE @ render r @ S" pre d] by simp
  also have "\<dots> = scanDepth ?xml (?p1 + 6) (d + 1)"
    using scan_at_open[of "render c @ CLOSE @ render r @ S" d "pre @ t"] Block.prems(2)
      indexOf0_exists[of CLOSE "render c" "render r @ S"] by simp
  also have "\<dots> = scanDepth ?xml ?p2 (d + 1)"
    using Block.IH(1)[OF wf(3), of "d + 1" "CLOSE @ render r @ S" "pre @ t @ OPEN"]
    by (simp add: add.assoc)
  also have "\<dots> = scanDepth ?xml (?p2 + 7) d"
    using scan_at_close[of "d + 1" "pre @ t @ OPEN @ render c" "render r @ S"] Block.prems(2)
    by (simp add: add.assoc)
  also have "\<dots> = scanDepth ?xml (length pre + length (render (Block t c r))) d"
    using Block.IH(2)[OF wf(4) Block.prems(2,3), of "pre @ t @ OPEN @ render c @ CLOSE"]
    by (simp add: add.assoc)
  finally show ?case .
qed

lemma extractLoop_cong:
  assumes "indexOf xml OPEN p = indexOf xml OPEN q"
  shows "extractLoop xml p acc = extractLoop xml q acc"
proof (cases "indexOf xml OPEN p")
  case None
  with assms show ?thesis
    by (simp add: extractLoop.simps[of xml p acc] extractLoop.simps[of xml q acc])
next
  case (Some c)
  with assms have "p < length xml \<and> q < length xml"
    using indexOf_bound[of xml OPEN p c] indexOf_bound[of xml OPEN q c]
      indexOf_ge[of xml OPEN p c] indexOf_ge[of xml OPEN q c] by (auto simp: min_def split: if_splits)
  then have pq: "p < length xml" "q < length xml" by simp_all
  obtain k y where sc: "scanDepth xml (c + 6) 1 = (k, y)" by (cases "scanDepth xml (c + 6) 1")
  have "y = None \<Longrightarrow> 0 < k" using scanDepth_None_pos[of xml "c + 6" 1 k] sc by simp
  moreover have "indexOf xml OPEN q = Some c" using assms Some by simp
  moreover have "scanDepth xml (c + 6) (Suc 0) = (k, y)" using sc by simp
  ultimately show ?thesis using Some pq
    by (cases y) (simp_all add: extractLoop.simps[of xml p acc] extractLoop.simps[of xml q acc])
qed

lemma extract_text:
  assumes "noOpen t" "tagStart S"
  shows "extractLoop (pre @ t @ S) (length pre) acc = extractLoop (pre @ t @ S) (length pre + length t) acc"
  by (rule extractLoop_cong)
     (simp add: indexOf_at indexOf_at2 open_text assms map_option_plus)

lemma extract_block:
  assumes "wfNested c"
  shows "extractLoop (pre @ OPEN @ render c @ CLOSE @ r) (length pre) acc =
         extractLoop (pre @ OPEN @ render c @ CLOSE @ r) (length pre + 6 + length (render c) + 7)
           (acc @ [render c])"
proof -
  let ?xml = "pre @ OPEN @ render c @ CLOSE @ r"
  have o: "indexOf ?xml OPEN (length pre) = Some (length pre)"
    by (simp add: indexOf_at open_at_open)
  have "scanDepth ?xml (length pre + 6) 1 = scanDepth ?xml (length pre + 6 + length (render c)) 1"
    using scan_wf[OF assms, of 1 "CLOSE @ r" "pre @ OPEN"] by simp
  also have "\<dots> = (0, Some (length pre + 6 + length (render c)))"
    using scan_at_close[of 1 "pre @ OPEN @ render c" r] by (simp add: add.assoc)
  finally have s: "scanDepth ?xml (length pre + 6) (Suc 0) = (0, Some (length pre + 6 + length (render c)))"
    by simp
  have sl: "slice ?xml (length pre + 6) (length pre + 6 + length (render c)) = render c"
    by (simp add: slice_def)
  show ?thesis
    by (subst extractLoop.simps) (simp add: o s sl)
qed

lemma extract_wf:
  "wfTop d \<Longrightarrow> tagStart S \<Longrightarrow>
   extractLoop (pre @ render d @ S) (length pre) acc =
   extractLoop (pre @ render d @ S) (length pre + length (render d)) (acc @ topLevel d)"
proof (induction d arbitrary: pre acc)
  case (Tail t)
  then show ?case using extract_text[of t S pre acc] by simp
next
  case (Block t c r)
  let ?xml = "pre @ render (Block t c r) @ S"
  let ?p1 = "length pre + length t"
  from Block.prems have wf: "noOpen t" "wfNested c" "wfTop r" by simp_all
  have "extractLoop ?xml (length pre) acc = extractLoop ?xml ?p1 acc"
    using extract_text[OF wf(1), of "OPEN @ render c @ CLOSE @ render r @ S" pre acc] by simp
  also have "\<dots> = extractLoop ?xml (?p1 + 6 + length (render c) + 7) (acc @ [render c])"
    using extract_block[OF wf(2), of "pre @ t" "render r @ S" acc] by simp
  also have "\<dots> = extractLoop ?xml (length pre + length (render (Block t c r))) ((acc @ [render c]) @ topLevel r)"
    using Block.IH(2)[OF wf(3) Block.prems(2), of "pre @ t @ OPEN @ render c @ CLOSE" "acc @ [render c]"]
    by (simp add: add.assoc)
  finally show ?case by simp
qed

lemma extractLoop_end: "length xml \<le> p \<Longrightarrow> extractLoop xml p acc = acc"
  by (simp add: extractLoop.simps[of xml p acc])

lemma extract_render: "wfTop d \<Longrightarrow> extractTopLevelDicts (render d) = topLevel d"
  using extract_wf[of d "[]" "[]" "[]"] by (simp add: extractTopLevelDicts_def extractLoop_end)


fun blockOffsets :: "nat \<Rightarrow> doc \<Rightarrow> nat list" where
  "blockOffsets base (Tail t) = []"
| "blockOffsets base (Block t c r) =
     (base + length t) # blockOffsets (base + length t + 6 + length (render c) + 7) r"

lemma spans_topLevel:
  "list_all2 (\<lambda>off c. slice (pre @ render d) off (off + 6 + length c + 7) = OPEN @ c @ CLOSE)
     (blockOffsets (length pre) d) (topLevel d)"
proof (induction d arbitrary: pre)
  case (Tail t)
  show ?case by simp
next
  case (Block t c r)
  have "slice (pre @ render (Block t c r)) (length pre + length t)
          (length pre + length t + 6 + length (render c) + 7) = OPEN @ render c @ CLOSE"
    by (simp add: slice_def)
  moreover have "list_all2
     (\<lambda>off ca. slice (pre @ render (Block t c r)) off (off + 6 + length ca + 7) = OPEN @ ca @ CLOSE)
     (blockOffsets (length pre + length t + 6 + length (render c) + 7) r) (topLevel r)"
    using Block.IH(2)[of "pre @ t @ OPEN @ render c @ CLOSE"] by (simp add: add.assoc)
  ultimately show ?case by (simp add: add.assoc)
qed

fun unclosed :: "doc \<Rightarrow> doc list \<Rightarrow> jsstring" where
  "unclosed c [] = render c"
| "unclosed c (c' # cs) = render c @ OPEN @ unclosed c' cs"

lemma scanDepth_end: "length xml \<le> p \<Longrightarrow> scanDepth xml p d = (d, None)"
  by (simp add: scanDepth.simps[of xml p d])

lemma scan_unclosed:
  "wfNested c \<Longrightarrow> list_all wfNested cs \<Longrightarrow> 0 < d \<Longrightarrow>
   snd (scanDepth (pre @ unclosed c cs) (length pre) d) = None"
proof (induction cs arbitrary: c pre d)
  case Nil
  then show ?case
    using scan_wf[of c d "[]" pre] by (simp add: scanDepth_end)
next
  case (Cons c' cs)
  let ?xml = "pre @ unclosed c (c' # cs)"
  let ?p1 = "length pre + length (render c)"
  have 1: "scanDepth ?xml (length pre) d = scanDepth ?xml ?p1 d"
    using scan_wf[OF Cons.prems(1,3), of "OPEN @ unclosed c' cs" pre] by simp
  show ?case
  proof (cases "indexOf0 CLOSE (unclosed c' cs)")
    case None
    then show ?thesis
      using 1 scan_at_open_stuck[of "unclosed c' cs" "pre @ render c" d] by simp
  next
    case (Some k)
    then have "scanDepth ?xml ?p1 d = scanDepth ?xml (?p1 + 6) (d + 1)"
      using scan_at_open[of "unclosed c' cs" d "pre @ render c"] Cons.prems(3) by simp
    with 1 show ?thesis
      using Cons.IH[of c' "d + 1" "pre @ render c @ OPEN"] Cons.prems(2)
      by (simp add: add.assoc)
  qed
qed

lemma extract_at_unclosed:
  assumes "wfNested c" "list_all wfNested cs"
  shows "extractLoop (pre @ OPEN @ unclosed c cs) (length pre) acc = acc"
proof -
  let ?xml = "pre @ OPEN @ unclosed c cs"
  have o: "indexOf ?xml OPEN (length pre) = Some (length pre)"
    by (simp add: indexOf_at open_at_open)
  obtain k y where sc: "scanDepth ?xml (length pre + 6) (Suc 0) = (k, y)"
    by (cases "scanDepth ?xml (length pre + 6) (Suc 0)")
  have "y = None" using scan_unclosed[OF assms, of 1 "pre @ OPEN"] sc by simp
  moreover from this have "0 < k" using scanDepth_None_pos[of ?xml "length pre + 6" 1 k] sc by simp
  ultimately show ?thesis using o sc
    by (subst extractLoop.simps) simp
qed

lemma extract_render_unclosed:
  assumes "wfTop d" "wfNested c" "list_all wfNested cs"
  shows "extractTopLevelDicts (render d @ OPEN @ unclosed c cs) = topLevel d"
  using extract_wf[OF assms(1), of "OPEN @ unclosed c cs" "[]" "[]"]
    extract_at_unclosed[OF assms(2,3), of "render d" "topLevel d"]
  by (simp add: extractTopLevelDicts_def)



text \<open>
  An unfolding of the outer loop that the simplifier can run on a concrete document: the
  branch that would repeat the loop with an unchanged \<open>pos\<close> is never taken.
\<close>

lemma extractLoop_unfold:
  "extractLoop xml pos results =
     (if pos < length xml then
        (case indexOf xml OPEN pos of
           None \<Rightarrow> results
         | Some openIdx \<Rightarrow>
             (case snd (scanDepth xml (openIdx + 6) 1) of
                Some nextClose \<Rightarrow>
                  if fst (scanDepth xml (openIdx + 6) 1) \<noteq> 0
                  then results @ [slice xml (openIdx + 6) nextClose]
                  else extractLoop xml (nextClose + 7)
                         (results @ [slice xml (openIdx + 6) nextClose])
              | None \<Rightarrow> results))
      else results)"
proof (cases "pos < length xml")
  case False
  then show ?thesis by (simp add: extractLoop.simps[of xml pos results])
next
  case True
  show ?thesis
  proof (cases "indexOf xml OPEN pos")
    case None
    with True show ?thesis by (simp add: extractLoop.simps[of xml pos results])
  next
    case (Some openIdx)
    obtain k y where sc: "scanDepth xml (openIdx + 6) (Suc 0) = (k, y)"
      by (cases "scanDepth xml (openIdx + 6) (Suc 0)")
    have "y = None \<Longrightarrow> 0 < k" using scanDepth_None_pos[of xml "openIdx + 6" 1 k] sc by simp
    with True Some sc show ?thesis
      by (cases y) (simp_all add: extractLoop.simps[of xml pos results])
  qed
qed

named_theorems eval_simps

lemmas [eval_simps] =
  extractTopLevelDicts_def extractLoop_unfold scanDepth.simps indexOf_def slice_def
  js_def OPEN_eq CLOSE_eq Let_def

text \<open>
  Claim C1.  A well-formed document is the rendering of a \<open>doc\<close> whose top-level text
  runs contain no \<^verbatim>\<open><dict>\<close> and whose nested text runs contain neither tag.  For
  such a document \<^verbatim>\<open>extractTopLevelDicts\<close> returns exactly the inner contents of the
  top-level blocks, in document order, nested blocks included in the content of their
  parent; and each returned content, wrapped in \<^verbatim>\<open><dict>\<close> and \<^verbatim>\<open></dict>\<close>, is
  the span of the document that starts at the offset of its block.
\<close>

theorem extractTopLevelDicts_wellformed:
  assumes "wfTop d"
  shows "extractTopLevelDicts (render d) = topLevel d \<and>
         list_all2 (\<lambda>off c. slice (render d) off (off + 6 + length c + 7) = OPEN @ c @ CLOSE)
           (blockOffsets 0 d) (extractTopLevelDicts (render d))"
  using extract_render[OF assms] spans_topLevel[of "[]" d] by simp

theorem extractTopLevelDicts_wellformed_witness:
  "wfTop (Block (js ''x'') (Block (js ''a'') (Tail (js ''b'')) (Tail (js ''c'')))
            (Block (js ''y'') (Tail (js ''d'')) (Tail (js ''z'')))) \<and>
   extractTopLevelDicts (js ''x<dict>a<dict>b</dict>c</dict>y<dict>d</dict>z'') =
     [js ''a<dict>b</dict>c'', js ''d''] \<and>
   slice (js ''x<dict>a<dict>b</dict>c</dict>y<dict>d</dict>z'') 1 30 =
     js ''<dict>a<dict>b</dict>c</dict>'' \<and>
   slice (js ''x<dict>a<dict>b</dict>c</dict>y<dict>d</dict>z'') 31 45 = js ''<dict>d</dict>''"
proof -
  let ?d = "Block (js ''x'') (Block (js ''a'') (Tail (js ''b'')) (Tail (js ''c'')))
              (Block (js ''y'') (Tail (js ''d'')) (Tail (js ''z'')))"
  have wf: "wfTop ?d"
    by (simp add: noOpen_def noClose_def OPEN_eq CLOSE_eq js_def)
  have r: "render ?d = js ''x<dict>a<dict>b</dict>c</dict>y<dict>d</dict>z''"
    by (simp add: OPEN_eq CLOSE_eq js_def)
  from extractTopLevelDicts_wellformed[OF wf] wf show ?thesis
    unfolding r by (simp add: OPEN_eq CLOSE_eq js_def slice_def)
qed

text \<open>
  Claim C8.  A document with an unterminated block is the rendering of complete top-level
  material \<open>d\<close>, followed by an open tag that is never closed; what follows that tag is
  well-formed nested content \<open>c\<close>, possibly interrupted by further open tags that are
  not closed either (\<open>cs\<close>).  \<^verbatim>\<open>extractTopLevelDicts\<close> returns the complete top-level
  blocks of \<open>d\<close> and nothing else; the result is a plain list, no error value exists.
\<close>

theorem extractTopLevelDicts_unterminated:
  assumes "wfTop d" "wfNested c" "list_all wfNested cs"
  shows "extractTopLevelDicts (render d @ OPEN @ unclosed c cs) = topLevel d"
  using extract_render_unclosed[OF assms] .

theorem extractTopLevelDicts_unterminated_witness:
  "wfTop (Block (js ''x'') (Tail (js ''a'')) (Tail (js ''y''))) \<and>
   wfNested (Block (js ''p'') (Tail (js ''q'')) (Tail (js ''r''))) \<and>
   list_all wfNested [Tail (js ''s'')] \<and>
   extractTopLevelDicts (js ''x<dict>a</dict>y<dict>p<dict>q</dict>r<dict>s'') = [js ''a'']"
proof -
  let ?d = "Block (js ''x'') (Tail (js ''a'')) (Tail (js ''y''))"
  let ?c = "Block (js ''p'') (Tail (js ''q'')) (Tail (js ''r''))"
  have wf: "wfTop ?d" "wfNested ?c" "list_all wfNested [Tail (js ''s'')]"
    by (simp_all add: noOpen_def noClose_def OPEN_eq CLOSE_eq js_def)
  have r: "render ?d @ OPEN @ unclosed ?c [Tail (js ''s'')] =
           js ''x<dict>a</dict>y<dict>p<dict>q</dict>r<dict>s''"
    by (simp add: OPEN_eq CLOSE_eq js_def)
  from extractTopLevelDicts_unterminated[OF wf] wf show ?thesis
    unfolding r by (simp add: js_def)
qed

section \<open>Field extraction and the enumerators\<close>

lemma stripPrefix_append [simp]: "stripPrefix p (p @ r) = Some r"
  by (induction p) auto

lemma stripPrefix_Some: "stripPrefix p s = Some r \<longleftrightarrow> s = p @ r"
  by (induction p s rule: stripPrefix.induct) auto

lemma stripPrefix_None: "stripPrefix p s = None \<longleftrightarrow> \<not> prefix p s"
  by (induction p s rule: stripPrefix.induct) auto

lemma execFirst_hit: "m s = Some r \<Longrightarrow> execFirst m s = Some r"
  by (cases s) auto

lemma indexOf0_first:
  "indexOf0 pat s = Some i \<Longrightarrow> prefix pat (drop i s) \<and> (\<forall>j<i. \<not> prefix pat (drop j s))"
proof (induction s arbitrary: i)
  case Nil
  then show ?case by (auto split: if_splits)
next
  case (Cons x xs)
  show ?case
  proof (cases "prefix pat (x # xs)")
    case True
    with Cons.prems show ?thesis by simp
  next
    case False
    with Cons.prems obtain k where k: "indexOf0 pat xs = Some k" "i = Suc k" by auto
    from Cons.IH[OF k(1)] have ih: "prefix pat (drop k xs)" "\<forall>j<k. \<not> prefix pat (drop j xs)"
      by simp_all
    have "\<not> prefix pat (drop j (x # xs))" if "j < i" for j
    proof (cases j)
      case 0
      with False show ?thesis by simp
    next
      case (Suc j')
      with that k(2) ih(2) show ?thesis by simp
    qed
    with ih(1) k(2) show ?thesis by simp
  qed
qed

lemma execFirst_skip:
  assumes "\<And>x. \<not> prefix pat x \<Longrightarrow> m x = None" "indexOf0 pat s = Some i"
  shows "execFirst m s = execFirst m (drop i s)"
  using assms(2)
proof (induction s arbitrary: i)
  case Nil
  then show ?case by simp
next
  case (Cons x xs)
  show ?case
  proof (cases "prefix pat (x # xs)")
    case True
    with Cons.prems show ?thesis by simp
  next
    case False
    with Cons.prems obtain k where k: "indexOf0 pat xs = Some k" "i = Suc k" by auto
    from False assms(1) have "m (x # xs) = None" by blast
    with Cons.IH[OF k(1)] k(2) show ?thesis by simp
  qed
qed

lemma dropWhile_ws_tag:
  "list_all isWhiteSpace ws \<Longrightarrow> dropWhile isWhiteSpace (ws @ 60 # r) = 60 # r"
  by (induction ws) (auto simp: isWhiteSpace_def)

lemma matchKeyElement_needs_key: "\<not> prefix (keyTag k) x \<Longrightarrow> matchKeyElement k tag x = None"
  by (simp add: matchKeyElement_def stripPrefix_None[THEN iffD2])

lemma matchKeyElement_hit:
  assumes "list_all isWhiteSpace ws" "60 \<notin> set v"
  shows "matchKeyElement k tag (keyTag k @ ws @ js ''<'' @ tag @ js ''>'' @ v @ js ''</'' @ tag @ js ''>'' @ post) = Some v"
proof -
  have lt: "js ''<'' = [60]" "js ''</'' = [60, 47]" by (simp_all add: js_def)
  have 1: "dropWhile isWhiteSpace (ws @ js ''<'' @ tag @ js ''>'' @ v @ js ''</'' @ tag @ js ''>'' @ post)
        = (js ''<'' @ tag @ js ''>'') @ v @ js ''</'' @ tag @ js ''>'' @ post"
    using dropWhile_ws_tag[OF assms(1)] by (simp add: lt)
  have 2: "dropWhile (\<lambda>c. c \<noteq> 60) (v @ js ''</'' @ tag @ js ''>'' @ post) = (js ''</'' @ tag @ js ''>'') @ post"
    using assms(2) by (auto simp: lt dropWhile_append3)
  have 3: "takeWhile (\<lambda>c. c \<noteq> 60) (v @ js ''</'' @ tag @ js ''>'' @ post) = v"
    using assms(2) by (auto simp: lt takeWhile_tail)
  show ?thesis
    unfolding matchKeyElement_def by (simp add: 1 2 3 del: append_assoc)
qed


lemma js_append: "js (a @ b) = js a @ js b"
  by (simp add: js_def)

lemma js_eq_Nil [simp]: "js s = [] \<longleftrightarrow> s = []"
  by (simp add: js_def)

lemma falsy_simps [simp]: "falsy None" "falsy (Some x) \<longleftrightarrow> x = []"
  by (simp_all add: falsy_def)


lemma extract_element_first_key:
  assumes "indexOf0 (keyTag k) content = Some i"
    and "drop (i + length (keyTag k)) content =
           ws @ js ''<'' @ tag @ js ''>'' @ v @ js ''</'' @ tag @ js ''>'' @ post"
    and "list_all isWhiteSpace ws" "60 \<notin> set v"
  shows "execFirst (matchKeyElement k tag) content = Some v"
proof -
  from indexOf0_first[OF assms(1)] obtain r where r: "drop i content = keyTag k @ r"
    by (auto simp: prefix_def)
  then have "drop (length (keyTag k)) (drop i content) = r" by simp
  with assms(2) have "r = ws @ js ''<'' @ tag @ js ''>'' @ v @ js ''</'' @ tag @ js ''>'' @ post"
    by (simp add: add.commute)
  with r have "matchKeyElement k tag (drop i content) = Some v"
    using matchKeyElement_hit[OF assms(3,4), of k tag post] by simp
  then have "execFirst (matchKeyElement k tag) (drop i content) = Some v"
    by (rule execFirst_hit)
  moreover have "execFirst (matchKeyElement k tag) content =
                 execFirst (matchKeyElement k tag) (drop i content)"
    by (rule execFirst_skip[OF matchKeyElement_needs_key assms(1)])
  ultimately show ?thesis by simp
qed

lemma smartGroupsLoop_map_filter:
  "smartGroupsLoop bs acc = acc @ List.map_filter smartGroupOfDict bs"
  by (induction bs arbitrary: acc) (auto simp: List.map_filter_simps split: option.splits)

lemma smartRulesLoop_map_filter:
  "smartRulesLoop pI pF bs acc = acc @ List.map_filter (smartRuleOfDict pI pF) bs"
  by (induction bs arbitrary: acc) (auto simp: List.map_filter_simps split: option.splits)

lemma mset_sortInsert: "mset (sortInsert c x ys) = add_mset x (mset ys)"
  by (induction ys) auto

lemma set_sortInsert: "set (sortInsert c x ys) = insert x (set ys)"
  by (induction ys) auto

lemma mset_foldl_sortInsert:
  "mset (foldl (\<lambda>sorted x. sortInsert c x sorted) acc xs) = mset acc + mset xs"
  by (induction xs arbitrary: acc) (auto simp: mset_sortInsert)

lemma mset_arraySort: "mset (arraySort c xs) = mset xs"
  by (simp add: arraySort_def mset_foldl_sortInsert)

lemma sorted_sortInsert:
  assumes anti: "\<And>a b. 0 \<le> c a b \<Longrightarrow> c b a \<le> 0"
    and tr: "\<And>a b d. c a b \<le> 0 \<Longrightarrow> c b d \<le> 0 \<Longrightarrow> c a d \<le> 0"
  shows "sorted_wrt (\<lambda>a b. c a b \<le> 0) ys \<Longrightarrow> sorted_wrt (\<lambda>a b. c a b \<le> 0) (sortInsert c x ys)"
proof (induction ys)
  case Nil
  show ?case by simp
next
  case (Cons y ys)
  show ?case
  proof (cases "c x y < 0")
    case True
    then have xy: "c x y \<le> 0" by simp
    have "c x z \<le> 0" if "z \<in> set ys" for z
      using tr[OF xy] Cons.prems that by auto
    with True xy Cons.prems show ?thesis by auto
  next
    case False
    then have "c y x \<le> 0" using anti[of x y] by simp
    with False Cons show ?thesis by (auto simp: set_sortInsert)
  qed
qed

lemma sorted_arraySort:
  assumes anti: "\<And>a b. 0 \<le> c a b \<Longrightarrow> c b a \<le> 0"
    and tr: "\<And>a b d. c a b \<le> 0 \<Longrightarrow> c b d \<le> 0 \<Longrightarrow> c a d \<le> 0"
  shows "sorted_wrt (\<lambda>a b. c a b \<le> 0) (arraySort c xs)"
proof -
  have "sorted_wrt (\<lambda>a b. c a b \<le> 0) acc \<Longrightarrow>
        sorted_wrt (\<lambda>a b. c a b \<le> 0) (foldl (\<lambda>sorted x. sortInsert c x sorted) acc xs)" for acc
  proof (induction xs arbitrary: acc)
    case Nil
    then show ?case by simp
  next
    case (Cons x xs)
    have "sorted_wrt (\<lambda>a b. c a b \<le> 0) (sortInsert c x acc)"
      using Cons.prems anti tr by (intro sorted_sortInsert) auto
    from Cons.IH[OF this] show ?case by simp
  qed
  then show ?thesis by (simp add: arraySort_def)
qed

text \<open>
  The two values a loop body decides on: \<^verbatim>\<open>name\<close> and \<^verbatim>\<open>uuid\<close> of a block.
\<close>

definition dictName :: "jsstring \<Rightarrow> jsstring option" where
  "dictName dictContent = extractStringAfterKey dictContent (js ''name'')"

definition dictUuid :: "jsstring \<Rightarrow> jsstring option" where
  "dictUuid dictContent =
     (case extractSubDictAfterKey dictContent (js ''sync'') of
        Some sc \<Rightarrow> extractStringAfterKey sc (js ''UUID'')
      | None \<Rightarrow> None)"

definition keptNameUuid :: "jsstring \<Rightarrow> (jsstring \<times> jsstring) option" where
  "keptNameUuid b =
     (if falsy (dictName b) \<and> falsy (dictUuid b) then None
      else Some (nullish (dictName b) (js ''(unnamed)''), nullish (dictUuid b) []))"

lemma smartGroupOfDict_kept:
  "map_option (\<lambda>e. (name e, uuid e)) (smartGroupOfDict b) = keptNameUuid b"
  by (simp add: smartGroupOfDict_def keptNameUuid_def dictName_def dictUuid_def Let_def)

lemma smartRuleOfDict_kept:
  "map_option (\<lambda>e. (name e, uuid e)) (smartRuleOfDict pI pF b) = keptNameUuid b"
  by (simp add: smartRuleOfDict_def keptNameUuid_def dictName_def dictUuid_def Let_def)

lemma map_map_filter: "map f (List.map_filter g xs) = List.map_filter (\<lambda>x. map_option f (g x)) xs"
  by (induction xs) (auto simp: List.map_filter_simps split: option.splits)

lemma indexOf0_absent_char: "x \<in> set pat \<Longrightarrow> x \<notin> set s \<Longrightarrow> indexOf0 pat s = None"
proof (induction s)
  case Nil
  then show ?case by auto
next
  case (Cons y ys)
  from Cons.prems have "\<not> prefix pat (y # ys)"
    using set_mono_prefix[of pat "y # ys"] by blast
  with Cons show ?case by simp
qed

lemma execFirst_absent:
  assumes "\<And>x. \<not> prefix pat x \<Longrightarrow> m x = None" "indexOf0 pat s = None"
  shows "execFirst m s = None"
  using assms(2)
proof (induction s)
  case Nil
  then have "\<not> prefix pat []" by (auto split: if_splits)
  with assms(1) show ?case by simp
next
  case (Cons y ys)
  then have "\<not> prefix pat (y # ys)" "indexOf0 pat ys = None" by (auto split: if_splits)
  with assms(1) Cons.IH show ?case by simp
qed

lemma matchKeyBool_needs_key: "\<not> prefix (keyTag k) x \<Longrightarrow> matchKeyBool k x = None"
  by (simp add: matchKeyBool_def stripPrefix_None[THEN iffD2])

lemma matchKeyDict_needs_key: "\<not> prefix (keyTag k) x \<Longrightarrow> matchKeyDict k x = None"
  by (simp add: matchKeyDict_def stripPrefix_None[THEN iffD2])

text \<open>A key whose name has a character that the content lacks is not found.\<close>

lemma absent_key:
  assumes "x \<in> set k" "x \<notin> set c"
  shows "extractStringAfterKey c k = None" "extractDateAfterKey c k = None"
    "extractBoolAfterKey c k = None" "extractIntegerAfterKey pI c k = None"
    "extractRealAfterKey pF c k = None" "extractSubDictAfterKey c k = None"
proof -
  from assms have n: "indexOf0 (keyTag k) c = None"
    by (intro indexOf0_absent_char[of x]) (simp_all add: keyTag_def)
  have e: "execFirst (matchKeyElement k tag) c = None" for tag
    by (rule execFirst_absent[OF matchKeyElement_needs_key n])
  show "extractStringAfterKey c k = None" "extractDateAfterKey c k = None"
    "extractIntegerAfterKey pI c k = None" "extractRealAfterKey pF c k = None"
    by (simp_all add: extractStringAfterKey_def extractDateAfterKey_def
        extractIntegerAfterKey_def extractRealAfterKey_def e)
  show "extractBoolAfterKey c k = None"
    by (simp add: extractBoolAfterKey_def execFirst_absent[OF matchKeyBool_needs_key n])
  show "extractSubDictAfterKey c k = None"
    by (simp add: extractSubDictAfterKey_def execFirst_absent[OF matchKeyDict_needs_key n])
qed

text \<open>The loop body for smart rules decides as the one for smart groups does.\<close>

lemma smartRuleOfDict_group:
  "smartRuleOfDict pI pF c =
     map_option
       (\<lambda>g. \<lparr>name = name g, uuid = uuid g, syncDate = syncDate g, useUuidKey = useUuidKey g,
              enabled = extractBoolAfterKey c (js ''Enabled''),
              indexOffset = extractIntegerAfterKey pI c (js ''IndexOffset''),
              lastExecution = extractRealAfterKey pF c (js ''LastExecution'')\<rparr>)
       (smartGroupOfDict c)"
  by (simp add: smartRuleOfDict_def smartGroupOfDict_def Let_def)

text \<open>
  A block without the letters \<^verbatim>\<open>b\<close> and \<^verbatim>\<open>x\<close> has none of the keys \<^verbatim>\<open>Enabled\<close>,
  \<^verbatim>\<open>IndexOffset\<close> and \<^verbatim>\<open>LastExecution\<close>.
\<close>

lemma smartRuleOfDict_plain:
  assumes "98 \<notin> set c" "120 \<notin> set c"
  shows "smartRuleOfDict pI pF c =
     map_option
       (\<lambda>g. \<lparr>name = name g, uuid = uuid g, syncDate = syncDate g, useUuidKey = useUuidKey g,
              enabled = None, indexOffset = None, lastExecution = None\<rparr>)
       (smartGroupOfDict c)"
proof -
  have "extractBoolAfterKey c (js ''Enabled'') = None"
    by (rule absent_key(3)[of 98]) (simp_all add: assms js_def)
  moreover have "extractIntegerAfterKey pI c (js ''IndexOffset'') = None"
    by (rule absent_key(4)[of 120]) (simp_all add: assms js_def)
  moreover have "extractRealAfterKey pF c (js ''LastExecution'') = None"
    by (rule absent_key(5)[of 120]) (simp_all add: assms js_def)
  ultimately show ?thesis by (simp add: smartRuleOfDict_group)
qed

lemmas [eval_simps] =
  parsePlistXmlToSmartGroups_def smartGroupOfDict_def extractStringAfterKey_def
  matchKeyElement_def keyTag_def trim_def isWhiteSpace_def extractSubDictAfterKey_def
  matchKeyDict_def extractBoolAfterKey_def matchKeyBool_def extractDateAfterKey_def
  falsy_def nullish_def dictName_def dictUuid_def keptNameUuid_def

text \<open>
  Claim C3, as stated, fails.  A block whose name key holds an empty string has an
  extractable name (the extraction returns the empty string, not \<^verbatim>\<open>null\<close>); with no
  sync UUID the block is discarded all the same, and with a sync UUID it is kept under the
  empty name, not under the sentinel.
\<close>

theorem discard_rule_counterexample:
  "extractTopLevelDicts (js ''<dict><key>name</key><string></string></dict>'') =
     [js ''<key>name</key><string></string>''] \<and>
   extractStringAfterKey (js ''<key>name</key><string></string>'') (js ''name'') = Some [] \<and>
   parsePlistXmlToSmartGroups (js ''<dict><key>name</key><string></string></dict>'') = [] \<and>
   parsePlistXmlToSmartGroups
     (js ''<dict><key>name</key><string></string><key>sync</key><dict><key>UUID</key><string>U</string></dict></dict>'') =
     [\<lparr>name = [], uuid = js ''U'', syncDate = None, useUuidKey = None\<rparr>]"
  by (simp add: eval_simps)

text \<open>
  Claim C3, amended.  Both enumerators emit, in document order, one entry for each
  top-level block unless the block's name is \<^verbatim>\<open>null\<close> or empty and its sync UUID is
  \<^verbatim>\<open>null\<close> or empty; such a block yields no entry.  In an emitted entry a \<^verbatim>\<open>null\<close>
  name is replaced by \<^verbatim>\<open>(unnamed)\<close> and a \<^verbatim>\<open>null\<close> uuid by the empty string; extracted
  strings, empty ones included, are kept as they are.
\<close>

theorem discard_rule:
  "map (\<lambda>e. (name e, uuid e)) (parsePlistXmlToSmartGroups xml) =
     List.map_filter keptNameUuid (extractTopLevelDicts xml) \<and>
   map (\<lambda>e. (name e, uuid e)) (parsePlistXmlToSmartRules parseInt parseFloat xml) =
     List.map_filter keptNameUuid (extractTopLevelDicts xml)"
  by (simp add: parsePlistXmlToSmartGroups_def parsePlistXmlToSmartRules_def
      smartGroupsLoop_map_filter smartRulesLoop_map_filter map_map_filter
      smartGroupOfDict_kept smartRuleOfDict_kept)

text \<open>
  Claim C10.  When the first \<^verbatim>\<open><key>k</key>\<close> of a content is followed, after optional
  white space, by \<^verbatim>\<open><string></string>\<close>, \<^verbatim>\<open>extractStringAfterKey\<close> returns the empty
  string, not \<^verbatim>\<open>null\<close>.  In both enumerators a block yields an entry unless its name and
  its uuid are each \<^verbatim>\<open>null\<close> or the empty string, and the entry carries the extracted
  name and uuid unchanged, the defaults standing in only for \<^verbatim>\<open>null\<close>.  So a block whose
  name key holds the empty string is emitted under the empty name when it has a uuid, and
  yields no entry when its uuid is \<^verbatim>\<open>null\<close> or empty; and a block whose \<^verbatim>\<open>UUID\<close> key
  (inside \<^verbatim>\<open>sync\<close>) holds the empty string is emitted with the empty uuid when it has a
  name, and yields no entry when its name is \<^verbatim>\<open>null\<close> or empty.
\<close>

theorem empty_string_fields:
  assumes "indexOf0 (keyTag k) content = Some i"
    and "drop (i + length (keyTag k)) content = ws @ js ''<string></string>'' @ post"
    and "list_all isWhiteSpace ws"
  shows "extractStringAfterKey content k = Some [] \<and>
         (\<forall>b e. smartGroupOfDict b = Some e \<longrightarrow>
            name e = (case dictName b of None \<Rightarrow> js ''(unnamed)'' | Some n \<Rightarrow> n) \<and>
            uuid e = (case dictUuid b of None \<Rightarrow> [] | Some u \<Rightarrow> u)) \<and>
         (\<forall>b e. smartRuleOfDict parseInt parseFloat b = Some e \<longrightarrow>
            name e = (case dictName b of None \<Rightarrow> js ''(unnamed)'' | Some n \<Rightarrow> n) \<and>
            uuid e = (case dictUuid b of None \<Rightarrow> [] | Some u \<Rightarrow> u)) \<and>
         (\<forall>b. (dictName b = None \<or> dictName b = Some []) \<and>
              (dictUuid b = None \<or> dictUuid b = Some []) \<longrightarrow>
              smartGroupOfDict b = None \<and> smartRuleOfDict parseInt parseFloat b = None) \<and>
         (\<forall>b. \<not> ((dictName b = None \<or> dictName b = Some []) \<and>
                 (dictUuid b = None \<or> dictUuid b = Some [])) \<longrightarrow>
              (\<exists>e. smartGroupOfDict b = Some e \<and>
                   name e = (case dictName b of None \<Rightarrow> js ''(unnamed)'' | Some n \<Rightarrow> n) \<and>
                   uuid e = (case dictUuid b of None \<Rightarrow> [] | Some u \<Rightarrow> u)) \<and>
              (\<exists>e. smartRuleOfDict parseInt parseFloat b = Some e \<and>
                   name e = (case dictName b of None \<Rightarrow> js ''(unnamed)'' | Some n \<Rightarrow> n) \<and>
                   uuid e = (case dictUuid b of None \<Rightarrow> [] | Some u \<Rightarrow> u))) \<and>
         (k = js ''name'' \<longrightarrow>
            dictName content = Some [] \<and>
            (\<forall>u. dictUuid content = Some u \<and> u \<noteq> [] \<longrightarrow>
               (\<exists>e. smartGroupOfDict content = Some e \<and> name e = [] \<and> uuid e = u) \<and>
               (\<exists>e. smartRuleOfDict parseInt parseFloat content = Some e \<and>
                    name e = [] \<and> uuid e = u)) \<and>
            (dictUuid content = None \<or> dictUuid content = Some [] \<longrightarrow>
               smartGroupOfDict content = None \<and>
               smartRuleOfDict parseInt parseFloat content = None)) \<and>
         (k = js ''UUID'' \<longrightarrow>
            (\<forall>b. extractSubDictAfterKey b (js ''sync'') = Some content \<longrightarrow>
               dictUuid b = Some [] \<and>
               (\<forall>n. dictName b = Some n \<and> n \<noteq> [] \<longrightarrow>
                  (\<exists>e. smartGroupOfDict b = Some e \<and> name e = n \<and> uuid e = []) \<and>
                  (\<exists>e. smartRuleOfDict parseInt parseFloat b = Some e \<and>
                       name e = n \<and> uuid e = [])) \<and>
               (dictName b = None \<or> dictName b = Some [] \<longrightarrow>
                  smartGroupOfDict b = None \<and>
                  smartRuleOfDict parseInt parseFloat b = None)))"
proof -
  have "drop (i + length (keyTag k)) content =
          ws @ js ''<'' @ js ''string'' @ js ''>'' @ [] @ js ''</'' @ js ''string'' @ js ''>'' @ post"
    using assms(2) by (simp add: js_def)
  from extract_element_first_key[OF assms(1) this assms(3)]
  have x: "extractStringAfterKey content k = Some []"
    by (simp add: extractStringAfterKey_def trim_def)
  have c2: "name e = (case dictName b of None \<Rightarrow> js ''(unnamed)'' | Some n \<Rightarrow> n) \<and>
            uuid e = (case dictUuid b of None \<Rightarrow> [] | Some u \<Rightarrow> u)"
    if "smartGroupOfDict b = Some e" for b e
    using that
    by (auto simp: smartGroupOfDict_def dictName_def dictUuid_def Let_def nullish_def
        split: if_splits)
  have c3: "name e = (case dictName b of None \<Rightarrow> js ''(unnamed)'' | Some n \<Rightarrow> n) \<and>
            uuid e = (case dictUuid b of None \<Rightarrow> [] | Some u \<Rightarrow> u)"
    if "smartRuleOfDict parseInt parseFloat b = Some e" for b e
    using that
    by (auto simp: smartRuleOfDict_def dictName_def dictUuid_def Let_def nullish_def
        split: if_splits)
  have c4: "smartGroupOfDict b = None \<and> smartRuleOfDict parseInt parseFloat b = None"
    if "(dictName b = None \<or> dictName b = Some []) \<and> (dictUuid b = None \<or> dictUuid b = Some [])"
    for b
    using that
    by (simp add: smartGroupOfDict_def smartRuleOfDict_def dictName_def dictUuid_def Let_def
        falsy_def)
  have e5: "(\<exists>e. smartGroupOfDict b = Some e) \<and> (\<exists>e. smartRuleOfDict parseInt parseFloat b = Some e)"
    if "\<not> ((dictName b = None \<or> dictName b = Some []) \<and>
            (dictUuid b = None \<or> dictUuid b = Some []))" for b
    using that
    by (simp add: smartGroupOfDict_def smartRuleOfDict_def dictName_def dictUuid_def Let_def
        falsy_def)
  have c5: "(\<exists>e. smartGroupOfDict b = Some e \<and>
                   name e = (case dictName b of None \<Rightarrow> js ''(unnamed)'' | Some n \<Rightarrow> n) \<and>
                   uuid e = (case dictUuid b of None \<Rightarrow> [] | Some u \<Rightarrow> u)) \<and>
              (\<exists>e. smartRuleOfDict parseInt parseFloat b = Some e \<and>
                   name e = (case dictName b of None \<Rightarrow> js ''(unnamed)'' | Some n \<Rightarrow> n) \<and>
                   uuid e = (case dictUuid b of None \<Rightarrow> [] | Some u \<Rightarrow> u))"
    if "\<not> ((dictName b = None \<or> dictName b = Some []) \<and>
            (dictUuid b = None \<or> dictUuid b = Some []))" for b
    using e5[OF that] c2[of b] c3[of b] by blast
  have c6: "dictName content = Some [] \<and>
            (\<forall>u. dictUuid content = Some u \<and> u \<noteq> [] \<longrightarrow>
               (\<exists>e. smartGroupOfDict content = Some e \<and> name e = [] \<and> uuid e = u) \<and>
               (\<exists>e. smartRuleOfDict parseInt parseFloat content = Some e \<and>
                    name e = [] \<and> uuid e = u)) \<and>
            (dictUuid content = None \<or> dictUuid content = Some [] \<longrightarrow>
               smartGroupOfDict content = None \<and>
               smartRuleOfDict parseInt parseFloat content = None)"
    if "k = js ''name''"
  proof -
    from x that have n: "dictName content = Some []" by (simp add: dictName_def)
    have "(\<exists>e. smartGroupOfDict content = Some e \<and> name e = [] \<and> uuid e = u) \<and>
          (\<exists>e. smartRuleOfDict parseInt parseFloat content = Some e \<and> name e = [] \<and> uuid e = u)"
      if "dictUuid content = Some u \<and> u \<noteq> []" for u
      using c5[of content] n that by simp
    moreover have "smartGroupOfDict content = None \<and>
                   smartRuleOfDict parseInt parseFloat content = None"
      if "dictUuid content = None \<or> dictUuid content = Some []"
      using c4[of content] n that by blast
    ultimately show ?thesis using n by blast
  qed
  have c7: "dictUuid b = Some [] \<and>
               (\<forall>n. dictName b = Some n \<and> n \<noteq> [] \<longrightarrow>
                  (\<exists>e. smartGroupOfDict b = Some e \<and> name e = n \<and> uuid e = []) \<and>
                  (\<exists>e. smartRuleOfDict parseInt parseFloat b = Some e \<and>
                       name e = n \<and> uuid e = [])) \<and>
               (dictName b = None \<or> dictName b = Some [] \<longrightarrow>
                  smartGroupOfDict b = None \<and>
                  smartRuleOfDict parseInt parseFloat b = None)"
    if "k = js ''UUID''" "extractSubDictAfterKey b (js ''sync'') = Some content" for b
  proof -
    from x that have u: "dictUuid b = Some []" by (simp add: dictUuid_def)
    have "(\<exists>e. smartGroupOfDict b = Some e \<and> name e = n \<and> uuid e = []) \<and>
          (\<exists>e. smartRuleOfDict parseInt parseFloat b = Some e \<and> name e = n \<and> uuid e = [])"
      if "dictName b = Some n \<and> n \<noteq> []" for n
      using c5[of b] u that by simp
    moreover have "smartGroupOfDict b = None \<and> smartRuleOfDict parseInt parseFloat b = None"
      if "dictName b = None \<or> dictName b = Some []"
      using c4[of b] u that by blast
    ultimately show ?thesis using u by blast
  qed
  from x c2 c3 c4 c5 c6 c7 show ?thesis by blast
qed

text \<open>
  Four blocks: an empty name with the uuid \<^verbatim>\<open>U\<close>, the name \<^verbatim>\<open>N\<close> with an empty uuid,
  an empty name with an empty uuid, and neither name nor uuid.  Both enumerators emit the
  first two, with the empty strings kept, and drop the other two.
\<close>

definition emptyNameBlock :: jsstring where
  "emptyNameBlock = js
     ''<key>a</key><true/><key>name</key> <string></string><key>sync</key><dict><key>UUID</key><string>U</string></dict>''"

definition emptyUuidBlock :: jsstring where
  "emptyUuidBlock = js
     ''<key>name</key><string>N</string><key>sync</key><dict><key>UUID</key><string></string></dict>''"

definition emptyBothBlock :: jsstring where
  "emptyBothBlock = js
     ''<key>name</key><string></string><key>sync</key><dict><key>UUID</key><string></string></dict>''"

definition noFieldsBlock :: jsstring where
  "noFieldsBlock = js ''<key>a</key><true/>''"

definition emptyFieldsXml :: jsstring where
  "emptyFieldsXml =
     js ''<dict>'' @ emptyNameBlock @ js ''</dict><dict>'' @ emptyUuidBlock @
     js ''</dict><dict>'' @ emptyBothBlock @ js ''</dict><dict>'' @ noFieldsBlock @ js ''</dict>''"

definition emptyFieldsDoc :: doc where
  "emptyFieldsDoc =
     Block []
       (Block (js ''<key>a</key><true/><key>name</key> <string></string><key>sync</key>'')
          (Tail (js ''<key>UUID</key><string>U</string>'')) (Tail []))
       (Block []
          (Block (js ''<key>name</key><string>N</string><key>sync</key>'')
             (Tail (js ''<key>UUID</key><string></string>'')) (Tail []))
          (Block []
             (Block (js ''<key>name</key><string></string><key>sync</key>'')
                (Tail (js ''<key>UUID</key><string></string>'')) (Tail []))
             (Block [] (Tail (js ''<key>a</key><true/>'')) (Tail []))))"

theorem empty_string_fields_witness:
  "indexOf0 (keyTag (js ''name'')) emptyNameBlock = Some 19 \<and>
   extractStringAfterKey emptyNameBlock (js ''name'') = Some [] \<and>
   (\<exists>e. smartGroupOfDict emptyNameBlock = Some e \<and> name e = [] \<and> uuid e = js ''U'') \<and>
   (\<exists>e. smartRuleOfDict (\<lambda>s. 0::int) (\<lambda>s. 0::int) emptyNameBlock = Some e \<and>
        name e = [] \<and> uuid e = js ''U'') \<and>
   extractSubDictAfterKey emptyUuidBlock (js ''sync'') =
     Some (js ''<key>UUID</key><string></string>'') \<and>
   extractStringAfterKey (js ''<key>UUID</key><string></string>'') (js ''UUID'') = Some [] \<and>
   (\<exists>e. smartGroupOfDict emptyUuidBlock = Some e \<and> name e = js ''N'' \<and> uuid e = []) \<and>
   (\<exists>e. smartRuleOfDict (\<lambda>s. 0::int) (\<lambda>s. 0::int) emptyUuidBlock = Some e \<and>
        name e = js ''N'' \<and> uuid e = []) \<and>
   smartGroupOfDict emptyBothBlock = None \<and>
   smartRuleOfDict (\<lambda>s. 0::int) (\<lambda>s. 0::int) emptyBothBlock = None \<and>
   render emptyFieldsDoc = emptyFieldsXml \<and>
   parsePlistXmlToSmartGroups emptyFieldsXml =
     [\<lparr>name = [], uuid = js ''U'', syncDate = None, useUuidKey = None\<rparr>,
      \<lparr>name = js ''N'', uuid = [], syncDate = None, useUuidKey = None\<rparr>] \<and>
   parsePlistXmlToSmartRules (\<lambda>s. 0::int) (\<lambda>s. 0::int) emptyFieldsXml =
     [\<lparr>name = [], uuid = js ''U'', syncDate = None, useUuidKey = None,
       enabled = None, indexOffset = None, lastExecution = None\<rparr>,
      \<lparr>name = js ''N'', uuid = [], syncDate = None, useUuidKey = None,
       enabled = None, indexOffset = None, lastExecution = None\<rparr>]"
proof -
  have h1: "indexOf0 (keyTag (js ''name'')) emptyNameBlock = Some 19"
    by (simp add: emptyNameBlock_def keyTag_def js_def)
  have h2: "drop (19 + length (keyTag (js ''name''))) emptyNameBlock =
              js '' '' @ js ''<string></string>'' @
              js ''<key>sync</key><dict><key>UUID</key><string>U</string></dict>''"
    by (simp add: emptyNameBlock_def keyTag_def js_def)
  have h3: "list_all isWhiteSpace (js '' '')"
    by (simp add: isWhiteSpace_def js_def)
  have u: "dictUuid emptyNameBlock = Some (js ''U'')"
    by (simp add: emptyNameBlock_def eval_simps)
  have k1: "indexOf0 (keyTag (js ''name'')) emptyBothBlock = Some 0"
    by (simp add: emptyBothBlock_def keyTag_def js_def)
  have k2: "drop (0 + length (keyTag (js ''name''))) emptyBothBlock =
              [] @ js ''<string></string>'' @
              js ''<key>sync</key><dict><key>UUID</key><string></string></dict>''"
    by (simp add: emptyBothBlock_def keyTag_def js_def)
  have k3: "list_all isWhiteSpace []"
    by simp
  have ku: "dictUuid emptyBothBlock = Some []"
    by (simp add: emptyBothBlock_def eval_simps)
  have un: "js ''U'' \<noteq> []"
    by (simp add: js_def)
  from empty_string_fields[OF h1 h2 h3, of "\<lambda>s. 0::int" "\<lambda>s. 0::int"]
  have e: "extractStringAfterKey emptyNameBlock (js ''name'') = Some []"
    and a: "\<forall>u. dictUuid emptyNameBlock = Some u \<and> u \<noteq> [] \<longrightarrow>
               (\<exists>e. smartGroupOfDict emptyNameBlock = Some e \<and> name e = [] \<and> uuid e = u) \<and>
               (\<exists>e. smartRuleOfDict (\<lambda>s. 0::int) (\<lambda>s. 0::int) emptyNameBlock = Some e \<and>
                    name e = [] \<and> uuid e = u)"
    by blast+
  from a u un
  have g: "(\<exists>e. smartGroupOfDict emptyNameBlock = Some e \<and> name e = [] \<and> uuid e = js ''U'') \<and>
           (\<exists>e. smartRuleOfDict (\<lambda>s. 0::int) (\<lambda>s. 0::int) emptyNameBlock = Some e \<and>
                name e = [] \<and> uuid e = js ''U'')"
    by blast
  from empty_string_fields[OF k1 k2 k3, of "\<lambda>s. 0::int" "\<lambda>s. 0::int"]
  have "dictUuid emptyBothBlock = None \<or> dictUuid emptyBothBlock = Some [] \<longrightarrow>
          smartGroupOfDict emptyBothBlock = None \<and>
          smartRuleOfDict (\<lambda>s. 0::int) (\<lambda>s. 0::int) emptyBothBlock = None"
    by blast
  with ku have d: "smartGroupOfDict emptyBothBlock = None \<and>
                   smartRuleOfDict (\<lambda>s. 0::int) (\<lambda>s. 0::int) emptyBothBlock = None"
    by blast
  have s1: "indexOf0 (keyTag (js ''UUID'')) (js ''<key>UUID</key><string></string>'') = Some 0"
    by (simp add: keyTag_def js_def)
  have s2: "drop (0 + length (keyTag (js ''UUID''))) (js ''<key>UUID</key><string></string>'') =
              [] @ js ''<string></string>'' @ []"
    by (simp add: keyTag_def js_def)
  have sd: "extractSubDictAfterKey emptyUuidBlock (js ''sync'') =
              Some (js ''<key>UUID</key><string></string>'')"
    by (simp add: emptyUuidBlock_def eval_simps)
  have dn: "dictName emptyUuidBlock = Some (js ''N'')"
    by (simp add: emptyUuidBlock_def eval_simps)
  have nn: "js ''N'' \<noteq> []"
    by (simp add: js_def)
  from empty_string_fields[OF s1 s2 k3, of "\<lambda>s. 0::int" "\<lambda>s. 0::int"]
  have su: "extractStringAfterKey (js ''<key>UUID</key><string></string>'') (js ''UUID'') = Some []"
    and "\<forall>b. extractSubDictAfterKey b (js ''sync'') = Some (js ''<key>UUID</key><string></string>'') \<longrightarrow>
               (\<forall>n. dictName b = Some n \<and> n \<noteq> [] \<longrightarrow>
                  (\<exists>e. smartGroupOfDict b = Some e \<and> name e = n \<and> uuid e = []) \<and>
                  (\<exists>e. smartRuleOfDict (\<lambda>s. 0::int) (\<lambda>s. 0::int) b = Some e \<and>
                       name e = n \<and> uuid e = []))"
    by blast+
  with sd dn nn
  have gu: "(\<exists>e. smartGroupOfDict emptyUuidBlock = Some e \<and> name e = js ''N'' \<and> uuid e = []) \<and>
            (\<exists>e. smartRuleOfDict (\<lambda>s. 0::int) (\<lambda>s. 0::int) emptyUuidBlock = Some e \<and>
                 name e = js ''N'' \<and> uuid e = [])"
    by blast
  have wf: "wfTop emptyFieldsDoc"
    by (simp add: emptyFieldsDoc_def noOpen_def noClose_def OPEN_eq CLOSE_eq js_def)
  have r: "render emptyFieldsDoc = emptyFieldsXml"
    by (simp add: emptyFieldsDoc_def emptyFieldsXml_def emptyNameBlock_def emptyUuidBlock_def
        emptyBothBlock_def noFieldsBlock_def OPEN_eq CLOSE_eq js_def)
  have t: "topLevel emptyFieldsDoc = [emptyNameBlock, emptyUuidBlock, emptyBothBlock, noFieldsBlock]"
    by (simp add: emptyFieldsDoc_def emptyNameBlock_def emptyUuidBlock_def
        emptyBothBlock_def noFieldsBlock_def OPEN_eq CLOSE_eq js_def)
  have x: "extractTopLevelDicts emptyFieldsXml =
             [emptyNameBlock, emptyUuidBlock, emptyBothBlock, noFieldsBlock]"
    unfolding r[symmetric] extract_render[OF wf] by (rule t)
  have g1: "smartGroupOfDict emptyNameBlock =
      Some \<lparr>name = [], uuid = js ''U'', syncDate = None, useUuidKey = None\<rparr>"
    by (simp add: emptyNameBlock_def eval_simps)
  have g2: "smartGroupOfDict emptyUuidBlock =
      Some \<lparr>name = js ''N'', uuid = [], syncDate = None, useUuidKey = None\<rparr>"
    by (simp add: emptyUuidBlock_def eval_simps)
  have g4: "smartGroupOfDict noFieldsBlock = None"
    by (simp add: noFieldsBlock_def eval_simps)
  have p1: "98 \<notin> set emptyNameBlock" "120 \<notin> set emptyNameBlock"
    by (simp_all add: emptyNameBlock_def js_def)
  have p2: "98 \<notin> set emptyUuidBlock" "120 \<notin> set emptyUuidBlock"
    by (simp_all add: emptyUuidBlock_def js_def)
  have p4: "98 \<notin> set noFieldsBlock" "120 \<notin> set noFieldsBlock"
    by (simp_all add: noFieldsBlock_def js_def)
  have r1: "smartRuleOfDict (\<lambda>s. 0::int) (\<lambda>s. 0::int) emptyNameBlock =
      Some \<lparr>name = [], uuid = js ''U'', syncDate = None, useUuidKey = None,
            enabled = None, indexOffset = None, lastExecution = None\<rparr>"
    by (simp add: smartRuleOfDict_plain[OF p1] g1)
  have r2: "smartRuleOfDict (\<lambda>s. 0::int) (\<lambda>s. 0::int) emptyUuidBlock =
      Some \<lparr>name = js ''N'', uuid = [], syncDate = None, useUuidKey = None,
            enabled = None, indexOffset = None, lastExecution = None\<rparr>"
    by (simp add: smartRuleOfDict_plain[OF p2] g2)
  have r4: "smartRuleOfDict (\<lambda>s. 0::int) (\<lambda>s. 0::int) noFieldsBlock = None"
    by (simp add: smartRuleOfDict_plain[OF p4] g4)
  have pg: "parsePlistXmlToSmartGroups emptyFieldsXml =
     [\<lparr>name = [], uuid = js ''U'', syncDate = None, useUuidKey = None\<rparr>,
      \<lparr>name = js ''N'', uuid = [], syncDate = None, useUuidKey = None\<rparr>]"
    using d by (simp add: parsePlistXmlToSmartGroups_def x g1 g2 g4)
  have pr: "parsePlistXmlToSmartRules (\<lambda>s. 0::int) (\<lambda>s. 0::int) emptyFieldsXml =
     [\<lparr>name = [], uuid = js ''U'', syncDate = None, useUuidKey = None,
       enabled = None, indexOffset = None, lastExecution = None\<rparr>,
      \<lparr>name = js ''N'', uuid = [], syncDate = None, useUuidKey = None,
       enabled = None, indexOffset = None, lastExecution = None\<rparr>]"
    using d by (simp add: parsePlistXmlToSmartRules_def x r1 r2 r4)
  from h1 e g sd su gu d r pg pr show ?thesis by blast
qed

lemma groups_kept:
  "map (\<lambda>e. (name e, uuid e)) (parsePlistXmlToSmartGroups xml) =
     List.map_filter keptNameUuid (extractTopLevelDicts xml)"
  by (simp add: parsePlistXmlToSmartGroups_def smartGroupsLoop_map_filter map_map_filter
      smartGroupOfDict_kept)

lemma rules_kept:
  "map (\<lambda>e. (name e, uuid e)) (parsePlistXmlToSmartRules parseInt parseFloat xml) =
     List.map_filter keptNameUuid (extractTopLevelDicts xml)"
  by (simp add: parsePlistXmlToSmartRules_def smartRulesLoop_map_filter map_map_filter
      smartRuleOfDict_kept)

lemma mset_map_arraySort: "mset (map f (arraySort c xs)) = mset (map f xs)"
  using mset_arraySort[of c xs] by (metis mset_map)

text \<open>
  Claim C7.  \<^verbatim>\<open>localeCompare\<close> is a consistent comparator, as the language requires of
  it: a result that is not negative means the swapped comparison is not positive, and
  ``not positive'' is transitive.  When the file exists and the conversion succeeds, the
  list either lister returns is in ascending order of \<^verbatim>\<open>localeCompare\<close> on the names.
  It holds exactly the parsed entries, each as often as it was parsed, and its pairs of
  name and uuid are, each as often, the pairs of the top-level blocks of the input that
  are kept: two blocks with the same name and different uuids give two entries.  For a
  well-formed document the top-level blocks are those of the document.
\<close>

theorem listers_sorted_by_name:
  assumes "\<forall>a b. 0 \<le> localeCompare a b \<longrightarrow> localeCompare b a \<le> 0"
    and "\<forall>a b c. localeCompare a b \<le> 0 \<longrightarrow> localeCompare b c \<le> 0 \<longrightarrow> localeCompare a c \<le> 0"
  shows "(\<exists>gs. entries (listSmartGroups localeCompare plistPath True (Inr xml)) = Some gs \<and>
            success (listSmartGroups localeCompare plistPath True (Inr xml)) \<and>
            sorted_wrt (\<lambda>a b. localeCompare (name a) (name b) \<le> 0) gs \<and>
            mset gs = mset (parsePlistXmlToSmartGroups xml) \<and>
            mset (map (\<lambda>e. (name e, uuid e)) gs) =
              mset (List.map_filter keptNameUuid (extractTopLevelDicts xml))) \<and>
         (\<exists>rs. entries (listSmartRules localeCompare parseInt parseFloat plistPath True (Inr xml)) = Some rs \<and>
            success (listSmartRules localeCompare parseInt parseFloat plistPath True (Inr xml)) \<and>
            sorted_wrt (\<lambda>a b. localeCompare (name a) (name b) \<le> 0) rs \<and>
            mset rs = mset (parsePlistXmlToSmartRules parseInt parseFloat xml) \<and>
            mset (map (\<lambda>e. (name e, uuid e)) rs) =
              mset (List.map_filter keptNameUuid (extractTopLevelDicts xml))) \<and>
         (wfTop d \<longrightarrow>
            (\<exists>gs. entries (listSmartGroups localeCompare plistPath True (Inr (render d))) = Some gs \<and>
               sorted_wrt (\<lambda>a b. localeCompare (name a) (name b) \<le> 0) gs \<and>
               mset (map (\<lambda>e. (name e, uuid e)) gs) =
                 mset (List.map_filter keptNameUuid (topLevel d))) \<and>
            (\<exists>rs. entries (listSmartRules localeCompare parseInt parseFloat plistPath True
                             (Inr (render d))) = Some rs \<and>
               sorted_wrt (\<lambda>a b. localeCompare (name a) (name b) \<le> 0) rs \<and>
               mset (map (\<lambda>e. (name e, uuid e)) rs) =
                 mset (List.map_filter keptNameUuid (topLevel d))))"
proof -
  have anti: "0 \<le> localeCompare (name a) (name b) \<Longrightarrow> localeCompare (name b) (name a) \<le> 0"
    for a b :: "'x SmartGroupEntry_scheme"
    using assms(1) by blast
  have tr: "localeCompare (name a) (name b) \<le> 0 \<Longrightarrow> localeCompare (name b) (name c) \<le> 0 \<Longrightarrow>
            localeCompare (name a) (name c) \<le> 0"
    for a b c :: "'x SmartGroupEntry_scheme"
    using assms(2) by blast
  have s: "sorted_wrt (\<lambda>a b. localeCompare (name a) (name b) \<le> 0)
             (arraySort (\<lambda>a b. localeCompare (name a) (name b)) xs)"
    for xs :: "'x SmartGroupEntry_scheme list"
    by (rule sorted_arraySort[of "\<lambda>a b. localeCompare (name a) (name b)", OF anti tr])
  have g: "\<exists>gs. entries (listSmartGroups localeCompare plistPath True (Inr x)) = Some gs \<and>
            success (listSmartGroups localeCompare plistPath True (Inr x)) \<and>
            sorted_wrt (\<lambda>a b. localeCompare (name a) (name b) \<le> 0) gs \<and>
            mset gs = mset (parsePlistXmlToSmartGroups x) \<and>
            mset (map (\<lambda>e. (name e, uuid e)) gs) =
              mset (List.map_filter keptNameUuid (extractTopLevelDicts x))" for x
    by (simp add: listSmartGroups_def Let_def s mset_arraySort mset_map_arraySort groups_kept
        del: mset_map)
  have r: "\<exists>rs. entries (listSmartRules localeCompare parseInt parseFloat plistPath True (Inr x)) = Some rs \<and>
            success (listSmartRules localeCompare parseInt parseFloat plistPath True (Inr x)) \<and>
            sorted_wrt (\<lambda>a b. localeCompare (name a) (name b) \<le> 0) rs \<and>
            mset rs = mset (parsePlistXmlToSmartRules parseInt parseFloat x) \<and>
            mset (map (\<lambda>e. (name e, uuid e)) rs) =
              mset (List.map_filter keptNameUuid (extractTopLevelDicts x))" for x
    by (simp add: listSmartRules_def Let_def s mset_arraySort mset_map_arraySort rules_kept
        del: mset_map)
  have w: "(\<exists>gs. entries (listSmartGroups localeCompare plistPath True (Inr (render d))) = Some gs \<and>
               sorted_wrt (\<lambda>a b. localeCompare (name a) (name b) \<le> 0) gs \<and>
               mset (map (\<lambda>e. (name e, uuid e)) gs) =
                 mset (List.map_filter keptNameUuid (topLevel d))) \<and>
            (\<exists>rs. entries (listSmartRules localeCompare parseInt parseFloat plistPath True
                             (Inr (render d))) = Some rs \<and>
               sorted_wrt (\<lambda>a b. localeCompare (name a) (name b) \<le> 0) rs \<and>
               mset (map (\<lambda>e. (name e, uuid e)) rs) =
                 mset (List.map_filter keptNameUuid (topLevel d)))"
    if wf: "wfTop d"
    using g[of "render d"] r[of "render d"] by (auto simp: extract_render[OF wf])
  from g[of xml] r[of xml] w show ?thesis by blast
qed


text \<open>A consistent comparator to run the listers with: code units in lexicographic order.\<close>

definition codeUnitCompare :: "jsstring \<Rightarrow> jsstring \<Rightarrow> int" where
  "codeUnitCompare a b = (if a < b then - 1 else if a = b then 0 else 1)"

text \<open>
  A document with three blocks: \<^verbatim>\<open>B\<close> with uuid \<^verbatim>\<open>1\<close>, \<^verbatim>\<open>A\<close> without uuid, and \<^verbatim>\<open>B\<close>
  with uuid \<^verbatim>\<open>2\<close>.
\<close>

definition blockB1 :: jsstring where
  "blockB1 = js
     ''<key>name</key><string>B</string><key>sync</key><dict><key>UUID</key><string>1</string></dict>''"

definition blockA :: jsstring where
  "blockA = js ''<key>name</key><string>A</string>''"

definition blockB2 :: jsstring where
  "blockB2 = js
     ''<key>name</key><string>B</string><key>sync</key><dict><key>UUID</key><string>2</string></dict>''"

definition sameNameXml :: jsstring where
  "sameNameXml =
     js ''<dict>'' @ blockB1 @ js ''</dict><dict>'' @ blockA @ js ''</dict><dict>'' @ blockB2 @
     js ''</dict>''"

definition sameNameDoc :: doc where
  "sameNameDoc =
     Block []
       (Block (js ''<key>name</key><string>B</string><key>sync</key>'')
          (Tail (js ''<key>UUID</key><string>1</string>'')) (Tail []))
       (Block [] (Tail (js ''<key>name</key><string>A</string>''))
          (Block []
             (Block (js ''<key>name</key><string>B</string><key>sync</key>'')
                (Tail (js ''<key>UUID</key><string>2</string>'')) (Tail []))
             (Tail [])))"

theorem listers_sorted_by_name_witness:
  "render sameNameDoc = sameNameXml \<and>
   topLevel sameNameDoc = [blockB1, blockA, blockB2] \<and>
   entries (listSmartGroups codeUnitCompare [] True (Inr sameNameXml)) =
     Some [\<lparr>name = js ''A'', uuid = [], syncDate = None, useUuidKey = None\<rparr>,
           \<lparr>name = js ''B'', uuid = js ''1'', syncDate = None, useUuidKey = None\<rparr>,
           \<lparr>name = js ''B'', uuid = js ''2'', syncDate = None, useUuidKey = None\<rparr>] \<and>
   entries (listSmartRules codeUnitCompare (\<lambda>s. 0::int) (\<lambda>s. 0::int) [] True (Inr sameNameXml)) =
     Some [\<lparr>name = js ''A'', uuid = [], syncDate = None, useUuidKey = None,
            enabled = None, indexOffset = None, lastExecution = None\<rparr>,
           \<lparr>name = js ''B'', uuid = js ''1'', syncDate = None, useUuidKey = None,
            enabled = None, indexOffset = None, lastExecution = None\<rparr>,
           \<lparr>name = js ''B'', uuid = js ''2'', syncDate = None, useUuidKey = None,
            enabled = None, indexOffset = None, lastExecution = None\<rparr>] \<and>
   (\<exists>gs. entries (listSmartGroups codeUnitCompare [] True (Inr sameNameXml)) = Some gs \<and>
      sorted_wrt (\<lambda>a b. codeUnitCompare (name a) (name b) \<le> 0) gs \<and>
      mset (map (\<lambda>e. (name e, uuid e)) gs) =
        mset [(js ''B'', js ''1''), (js ''A'', []), (js ''B'', js ''2'')]) \<and>
   (\<exists>rs. entries (listSmartRules codeUnitCompare (\<lambda>s. 0::int) (\<lambda>s. 0::int) [] True
                    (Inr sameNameXml)) = Some rs \<and>
      sorted_wrt (\<lambda>a b. codeUnitCompare (name a) (name b) \<le> 0) rs \<and>
      mset (map (\<lambda>e. (name e, uuid e)) rs) =
        mset [(js ''B'', js ''1''), (js ''A'', []), (js ''B'', js ''2'')])"
proof -
  have h1: "\<forall>a b. 0 \<le> codeUnitCompare a b \<longrightarrow> codeUnitCompare b a \<le> 0"
    by (auto simp: codeUnitCompare_def)
  have h2: "\<forall>a b c. codeUnitCompare a b \<le> 0 \<longrightarrow> codeUnitCompare b c \<le> 0 \<longrightarrow> codeUnitCompare a c \<le> 0"
    by (auto simp: codeUnitCompare_def split: if_splits)
  have wf: "wfTop sameNameDoc"
    by (simp add: sameNameDoc_def noOpen_def noClose_def OPEN_eq CLOSE_eq js_def)
  have r: "render sameNameDoc = sameNameXml"
    by (simp add: sameNameDoc_def sameNameXml_def blockB1_def blockA_def blockB2_def
        OPEN_eq CLOSE_eq js_def)
  have t: "topLevel sameNameDoc = [blockB1, blockA, blockB2]"
    by (simp add: sameNameDoc_def blockB1_def blockA_def blockB2_def OPEN_eq CLOSE_eq js_def)
  have x: "extractTopLevelDicts sameNameXml = [blockB1, blockA, blockB2]"
    unfolding r[symmetric] extract_render[OF wf] by (rule t)
  have g1: "smartGroupOfDict blockB1 =
      Some \<lparr>name = js ''B'', uuid = js ''1'', syncDate = None, useUuidKey = None\<rparr>"
    by (simp add: blockB1_def eval_simps)
  have g2: "smartGroupOfDict blockA =
      Some \<lparr>name = js ''A'', uuid = [], syncDate = None, useUuidKey = None\<rparr>"
    by (simp add: blockA_def eval_simps)
  have g3: "smartGroupOfDict blockB2 =
      Some \<lparr>name = js ''B'', uuid = js ''2'', syncDate = None, useUuidKey = None\<rparr>"
    by (simp add: blockB2_def eval_simps)
  have p1: "98 \<notin> set blockB1" "120 \<notin> set blockB1"
    by (simp_all add: blockB1_def js_def)
  have p2: "98 \<notin> set blockA" "120 \<notin> set blockA"
    by (simp_all add: blockA_def js_def)
  have p3: "98 \<notin> set blockB2" "120 \<notin> set blockB2"
    by (simp_all add: blockB2_def js_def)
  have r1: "smartRuleOfDict (\<lambda>s. 0::int) (\<lambda>s. 0::int) blockB1 =
      Some \<lparr>name = js ''B'', uuid = js ''1'', syncDate = None, useUuidKey = None,
            enabled = None, indexOffset = None, lastExecution = None\<rparr>"
    by (simp add: smartRuleOfDict_plain[OF p1] g1)
  have r2: "smartRuleOfDict (\<lambda>s. 0::int) (\<lambda>s. 0::int) blockA =
      Some \<lparr>name = js ''A'', uuid = [], syncDate = None, useUuidKey = None,
            enabled = None, indexOffset = None, lastExecution = None\<rparr>"
    by (simp add: smartRuleOfDict_plain[OF p2] g2)
  have r3: "smartRuleOfDict (\<lambda>s. 0::int) (\<lambda>s. 0::int) blockB2 =
      Some \<lparr>name = js ''B'', uuid = js ''2'', syncDate = None, useUuidKey = None,
            enabled = None, indexOffset = None, lastExecution = None\<rparr>"
    by (simp add: smartRuleOfDict_plain[OF p3] g3)
  have k: "List.map_filter keptNameUuid (topLevel sameNameDoc) =
             [(js ''B'', js ''1''), (js ''A'', []), (js ''B'', js ''2'')]"
    using g1 g2 g3
    by (simp add: t List.map_filter_simps smartGroupOfDict_kept[symmetric])
  have eg: "parsePlistXmlToSmartGroups sameNameXml =
     [\<lparr>name = js ''B'', uuid = js ''1'', syncDate = None, useUuidKey = None\<rparr>,
      \<lparr>name = js ''A'', uuid = [], syncDate = None, useUuidKey = None\<rparr>,
      \<lparr>name = js ''B'', uuid = js ''2'', syncDate = None, useUuidKey = None\<rparr>]"
    by (simp add: parsePlistXmlToSmartGroups_def x g1 g2 g3)
  have er: "parsePlistXmlToSmartRules (\<lambda>s. 0::int) (\<lambda>s. 0::int) sameNameXml =
     [\<lparr>name = js ''B'', uuid = js ''1'', syncDate = None, useUuidKey = None,
       enabled = None, indexOffset = None, lastExecution = None\<rparr>,
      \<lparr>name = js ''A'', uuid = [], syncDate = None, useUuidKey = None,
       enabled = None, indexOffset = None, lastExecution = None\<rparr>,
      \<lparr>name = js ''B'', uuid = js ''2'', syncDate = None, useUuidKey = None,
       enabled = None, indexOffset = None, lastExecution = None\<rparr>]"
    by (simp add: parsePlistXmlToSmartRules_def x r1 r2 r3)
  have vg: "entries (listSmartGroups codeUnitCompare [] True (Inr sameNameXml)) =
     Some [\<lparr>name = js ''A'', uuid = [], syncDate = None, useUuidKey = None\<rparr>,
           \<lparr>name = js ''B'', uuid = js ''1'', syncDate = None, useUuidKey = None\<rparr>,
           \<lparr>name = js ''B'', uuid = js ''2'', syncDate = None, useUuidKey = None\<rparr>]"
    by (simp add: listSmartGroups_def Let_def eg arraySort_def codeUnitCompare_def js_def)
  have vr: "entries (listSmartRules codeUnitCompare (\<lambda>s. 0::int) (\<lambda>s. 0::int) [] True (Inr sameNameXml)) =
     Some [\<lparr>name = js ''A'', uuid = [], syncDate = None, useUuidKey = None,
            enabled = None, indexOffset = None, lastExecution = None\<rparr>,
           \<lparr>name = js ''B'', uuid = js ''1'', syncDate = None, useUuidKey = None,
            enabled = None, indexOffset = None, lastExecution = None\<rparr>,
           \<lparr>name = js ''B'', uuid = js ''2'', syncDate = None, useUuidKey = None,
            enabled = None, indexOffset = None, lastExecution = None\<rparr>]"
    by (simp add: listSmartRules_def Let_def er arraySort_def codeUnitCompare_def js_def)
  from listers_sorted_by_name[OF h1 h2, of "[]" sameNameXml "\<lambda>s. 0::int" "\<lambda>s. 0::int" sameNameDoc]
    wf
  have "(\<exists>gs. entries (listSmartGroups codeUnitCompare [] True (Inr (render sameNameDoc))) = Some gs \<and>
           sorted_wrt (\<lambda>a b. codeUnitCompare (name a) (name b) \<le> 0) gs \<and>
           mset (map (\<lambda>e. (name e, uuid e)) gs) =
             mset (List.map_filter keptNameUuid (topLevel sameNameDoc))) \<and>
        (\<exists>rs. entries (listSmartRules codeUnitCompare (\<lambda>s. 0::int) (\<lambda>s. 0::int) [] True
                         (Inr (render sameNameDoc))) = Some rs \<and>
           sorted_wrt (\<lambda>a b. codeUnitCompare (name a) (name b) \<le> 0) rs \<and>
           mset (map (\<lambda>e. (name e, uuid e)) rs) =
             mset (List.map_filter keptNameUuid (topLevel sameNameDoc)))"
    by blast
  then have th: "(\<exists>gs. entries (listSmartGroups codeUnitCompare [] True (Inr sameNameXml)) = Some gs \<and>
      sorted_wrt (\<lambda>a b. codeUnitCompare (name a) (name b) \<le> 0) gs \<and>
      mset (map (\<lambda>e. (name e, uuid e)) gs) =
        mset [(js ''B'', js ''1''), (js ''A'', []), (js ''B'', js ''2'')]) \<and>
     (\<exists>rs. entries (listSmartRules codeUnitCompare (\<lambda>s. 0::int) (\<lambda>s. 0::int) [] True
                    (Inr sameNameXml)) = Some rs \<and>
      sorted_wrt (\<lambda>a b. codeUnitCompare (name a) (name b) \<le> 0) rs \<and>
      mset (map (\<lambda>e. (name e, uuid e)) rs) =
        mset [(js ''B'', js ''1''), (js ''A'', []), (js ''B'', js ''2'')])"
    unfolding r k .
  from r t vg vr th show ?thesis by blast
qed
section \<open>The column-layout store\<close>

lemma copyKeysLoop_no_source:
  "\<forall>s\<in>set sfxs. map_of data (s @ js ''-'' @ source) = None \<Longrightarrow>
   copyKeysLoop sfxs source target data copied = (data, copied)"
  by (induction sfxs) (simp_all add: Let_def)

lemma copyScript_no_source:
  assumes "\<forall>s\<in>set sfxs. map_of data (s @ js ''-'' @ source) = None"
  shows "copyScript data sfxs source target =
           (Inl (js ''ERROR: no source keys found for: '' @ source @ [10]), data)"
  by (simp add: copyScript_def copyKeysLoop_no_source[OF assms])

lemma copyPlistKeys_no_source:
  assumes "pyPlain source" "pyPlain target" "list_all pyPlain sfxs"
    and "\<forall>s\<in>set sfxs. map_of data (s @ js ''-'' @ source) = None"
  shows "copyPlistKeys env data sfxs source target =
           (\<lparr>ok = False, keysCopied = [],
             copyError = Some (failureMessage env sfxs source target
                                 (js ''ERROR: no source keys found for: '' @ source @ [10]))\<rparr>,
            data)"
  using assms(1,2,3) by (simp add: copyPlistKeys_def copyScript_no_source[OF assms(4)])

lemma pyPlain_LAYOUT_SUFFIXES: "list_all pyPlain LAYOUT_SUFFIXES"
  by (simp add: LAYOUT_SUFFIXES_def pyPlain_def isHighSurrogate_def isLowSurrogate_def js_def)

lemma pyPlain_LAYOUT_PREFIXES: "list_all pyPlain LAYOUT_PREFIXES"
  by (simp add: LAYOUT_PREFIXES_def pyPlain_def isHighSurrogate_def isLowSurrogate_def js_def)

text \<open>
  A name with a backslash is not plain: Python reads the literal \<^verbatim>\<open>'J\x6fbs'\<close> as
  \<^verbatim>\<open>Jobs\<close>, and a literal that ends in a backslash does not end.  For such names the
  model says nothing of its own: the result of \<^verbatim>\<open>copyPlistKeys\<close> is made from the
  outcome that the environment gives.
\<close>

lemma backslash_not_plain: "\<not> pyPlain (js ''J'' @ [92] @ js ''x6fbs'')"
  by (simp add: pyPlain_def js_def)

lemma copyPlistKeys_not_plain:
  assumes "\<not> (pyPlain source \<and> pyPlain target \<and> list_all pyPlain sfxs)"
  shows "copyPlistKeys env data sfxs source target =
           (case copyOther env data sfxs source target of
              (Inr result, data') \<Rightarrow>
                (\<lparr>ok = True, keysCopied = filter (\<lambda>l. l \<noteq> []) (splitLines (trim result)),
                  copyError = None\<rparr>, data')
            | (Inl msg, data') \<Rightarrow>
                (\<lparr>ok = False, keysCopied = [], copyError = Some msg\<rparr>, data'))"
proof -
  from assms
  have "(if pyPlain source \<and> pyPlain target \<and> list_all pyPlain sfxs
         then (case copyScript data sfxs source target of
                 (Inl err, data') \<Rightarrow> (Inl (failureMessage env sfxs source target err), data')
               | (Inr result, data') \<Rightarrow> (Inr result, data'))
         else copyOther env data sfxs source target) =
        copyOther env data sfxs source target"
    by (rule if_not_P)
  then show ?thesis
    unfolding copyPlistKeys_def by simp
qed

text \<open>
  An environment to run the layout tools with.  The examples below use plain strings
  only, so the commands run as they are written; the three outcomes this environment
  gives for other strings are never consulted.
\<close>

definition sampleEnv :: "(jsstring, jsstring) LayoutEnv" where
  "sampleEnv =
     \<lparr>printValue = (\<lambda>v. v), printOther = (\<lambda>data key. None),
      namesOther = (\<lambda>data prefixList limit. None),
      copyOther = (\<lambda>data suffixList source target. (Inl [], data)),
      failureMessage = (\<lambda>suffixList source target err. js ''Command failed: python3'' @ [10] @ err),
      parseDict = (\<lambda>raw. raw), toLowerCase = asciiLower\<rparr>"

lemmas layout_eval =
  readLayoutForName_def keysForName_def plistRead_def falsy_def nullish_def Let_def
  js_def trim_def isWhiteSpace_def sampleEnv_def asciiLower_def
  getExistingNames_def getPlistKeysByPrefix_def LAYOUT_PREFIXES_def LAYOUT_SUFFIXES_def
  findMatchingNames_def stringIncludes_def parsePlistBuddyArray_def
  copyPlistKeys_def dq_def namesScript_def copyScript_def pyPlain_def buddyPlain_def
  isHighSurrogate_def isLowSurrogate_def

text \<open>
  Claim C2, as stated, fails for \<^verbatim>\<open>copy_column_layout\<close>.  The store holds one layout
  key, of the base name \<^verbatim>\<open>Jobs2\<close>, and none of the three keys of \<^verbatim>\<open>Jobs\<close>.  Copying
  from \<^verbatim>\<open>Jobs\<close> to \<^verbatim>\<open>T\<close> succeeds: the partial-name search finds the single candidate
  \<^verbatim>\<open>Jobs2\<close>, the source resolves to it, and a key of \<^verbatim>\<open>T\<close> is created.  All names are
  plain, so every command runs as it is written.
\<close>

theorem copy_without_source_keys_counterexample:
  "pyPlain (js ''Jobs'') \<and> pyPlain (js ''Jobs2'') \<and> pyPlain (js ''T'') \<and>
   map_of [(js ''ListColumnsHorizontal-Jobs2'', js ''Array {}'')]
     (js ''ListColumnsHorizontal-Jobs'') = None \<and>
   map_of [(js ''ListColumnsHorizontal-Jobs2'', js ''Array {}'')]
     (js ''TableView Columns ListColumnsHorizontal-Jobs'') = None \<and>
   map_of [(js ''ListColumnsHorizontal-Jobs2'', js ''Array {}'')]
     (js ''TableView Column Widths ListColumnsHorizontal-Jobs'') = None \<and>
   success (fst (copyColumnLayout sampleEnv
     [(js ''ListColumnsHorizontal-Jobs2'', js ''Array {}'')]
     (Some (js ''Jobs'')) (Some (js ''T'')) None None)) \<and>
   resolvedSourceKey (fst (copyColumnLayout sampleEnv
     [(js ''ListColumnsHorizontal-Jobs2'', js ''Array {}'')]
     (Some (js ''Jobs'')) (Some (js ''T'')) None None)) = Some (js ''Jobs2'') \<and>
   snd (copyColumnLayout sampleEnv
     [(js ''ListColumnsHorizontal-Jobs2'', js ''Array {}'')]
     (Some (js ''Jobs'')) (Some (js ''T'')) None None) =
     [(js ''ListColumnsHorizontal-Jobs2'', js ''Array {}''),
      (js ''ListColumnsHorizontal-T'', js ''Array {}'')]"
proof -
  let ?data = "[(js ''ListColumnsHorizontal-Jobs2'', js ''Array {}'')]"
  have p: "pyPlain (js ''Jobs'') \<and> pyPlain (js ''Jobs2'') \<and> pyPlain (js ''T'')"
    by (simp add: pyPlain_def isHighSurrogate_def isLowSurrogate_def js_def)
  have l1: "findMatchingNames sampleEnv ?data (js ''Jobs'') = [js ''Jobs2'']"
    by (simp add: layout_eval)
  have l2: "readLayoutForName sampleEnv ?data (js ''Jobs'') = None"
    by (simp add: layout_eval)
  have l3: "readLayoutForName sampleEnv ?data (js ''Jobs2'') \<noteq> None"
    by (simp add: layout_eval)
  have l4: "copyPlistKeys sampleEnv ?data LAYOUT_SUFFIXES (js ''Jobs2'') (js ''T'') =
     (\<lparr>ok = True, keysCopied = [js ''ListColumnsHorizontal-T''], copyError = None\<rparr>,
      [(js ''ListColumnsHorizontal-Jobs2'', js ''Array {}''),
       (js ''ListColumnsHorizontal-T'', js ''Array {}'')])"
    by (simp add: layout_eval)
  have l5: "readLayoutForName sampleEnv
      [(js ''ListColumnsHorizontal-Jobs2'', js ''Array {}''),
       (js ''ListColumnsHorizontal-T'', js ''Array {}'')] (js ''T'') \<noteq> None"
    by (simp add: layout_eval)
  have r: "resolveSource sampleEnv ?data (js ''Jobs'') None = Inr (Some (js ''Jobs2''))"
    using l3 by (simp add: resolveSource_def l1 l2)
  have m: "map_of ?data (js ''ListColumnsHorizontal-Jobs'') = None \<and>
           map_of ?data (js ''TableView Columns ListColumnsHorizontal-Jobs'') = None \<and>
           map_of ?data (js ''TableView Column Widths ListColumnsHorizontal-Jobs'') = None"
    by (simp add: js_def)
  have c: "success (fst (copyColumnLayout sampleEnv ?data (Some (js ''Jobs'')) (Some (js ''T'')) None None)) \<and>
     resolvedSourceKey (fst (copyColumnLayout sampleEnv ?data (Some (js ''Jobs'')) (Some (js ''T'')) None None)) =
       Some (js ''Jobs2'') \<and>
     snd (copyColumnLayout sampleEnv ?data (Some (js ''Jobs'')) (Some (js ''T'')) None None) =
       [(js ''ListColumnsHorizontal-Jobs2'', js ''Array {}''),
        (js ''ListColumnsHorizontal-T'', js ''Array {}'')]"
  proof -
    from l5 obtain v where v: "readLayoutForName sampleEnv
      [(js ''ListColumnsHorizontal-Jobs2'', js ''Array {}''),
       (js ''ListColumnsHorizontal-T'', js ''Array {}'')] (js ''T'') = Some v"
      by blast
    show ?thesis
      by (simp add: copyColumnLayout_def r l4 v nullish_def Let_def)
  qed
  from p m c show ?thesis by blast
qed

text \<open>
  Claim C2, amended.  Let the source base name and the target key be plain (no
  backslash, no control character, no unpaired surrogate), so that the Python literals
  they are spliced into denote them, and let none of the three layout keys of the source
  base name exist.  \<^verbatim>\<open>copyPlistKeys\<close> then returns \<^verbatim>\<open>ok: false\<close> and leaves the store
  unchanged.  \<^verbatim>\<open>copy_column_layout\<close>, called with that name as \<^verbatim>\<open>sourceName\<close>, returns
  \<^verbatim>\<open>success: false\<close> and leaves the store unchanged unless the source resolves to another
  base name: unless the uuid fallback has a readable layout, or the partial-name search
  yields exactly one candidate and that candidate has a readable layout.
\<close>

theorem copy_without_source_keys:
  assumes "pyPlain source" "pyPlain target"
    and "pyPlain (nullish targetUuid (nullish targetArg []))"
    and "\<forall>s\<in>set LAYOUT_SUFFIXES. map_of data (s @ js ''-'' @ source) = None"
  shows "\<not> ok (fst (copyPlistKeys env data LAYOUT_SUFFIXES source target)) \<and>
         snd (copyPlistKeys env data LAYOUT_SUFFIXES source target) = data \<and>
         ((falsy sourceUuid \<or> readLayoutForName env data (nullish sourceUuid []) = None) \<and>
          \<not> (length (findMatchingNames env data source) = 1 \<and>
             readLayoutForName env data (hd (findMatchingNames env data source)) \<noteq> None) \<longrightarrow>
          \<not> success (fst (copyColumnLayout env data (Some source) targetArg sourceUuid targetUuid)) \<and>
          snd (copyColumnLayout env data (Some source) targetArg sourceUuid targetUuid) = data)"
proof -
  have cp: "copyPlistKeys env data LAYOUT_SUFFIXES source t =
              (\<lparr>ok = False, keysCopied = [],
                copyError = Some (failureMessage env LAYOUT_SUFFIXES source t
                                    (js ''ERROR: no source keys found for: '' @ source @ [10]))\<rparr>,
               data)"
    if "pyPlain t" for t
    by (rule copyPlistKeys_no_source[OF assms(1) that pyPlain_LAYOUT_SUFFIXES assms(4)])
  have a: "\<not> ok (fst (copyPlistKeys env data LAYOUT_SUFFIXES source target)) \<and>
         snd (copyPlistKeys env data LAYOUT_SUFFIXES source target) = data"
    by (simp add: cp[OF assms(2)])
  have b: "\<not> success (fst (copyColumnLayout env data (Some source) targetArg sourceUuid targetUuid)) \<and>
          snd (copyColumnLayout env data (Some source) targetArg sourceUuid targetUuid) = data"
    if u: "falsy sourceUuid \<or> readLayoutForName env data (nullish sourceUuid []) = None"
      and f: "\<not> (length (findMatchingNames env data source) = 1 \<and>
             readLayoutForName env data (hd (findMatchingNames env data source)) \<noteq> None)"
  proof -
    have "resolveSource env data source sourceUuid = Inr (Some source) \<or>
          resolveSource env data source sourceUuid = Inr None \<or>
          (\<exists>fuzzy. resolveSource env data source sourceUuid = Inl fuzzy)"
      using u f by (auto simp: resolveSource_def Let_def)
    then consider
        (exact) "resolveSource env data source sourceUuid = Inr (Some source)"
      | (none) "resolveSource env data source sourceUuid = Inr None"
      | (ambiguous) fuzzy where "resolveSource env data source sourceUuid = Inl fuzzy"
      by blast
    then show ?thesis
    proof cases
      case exact
      show ?thesis
        using cp[OF assms(3)]
        by (simp add: copyColumnLayout_def Let_def exact nullish_def[of "Some source"])
    next
      case none
      then show ?thesis
        by (simp add: copyColumnLayout_def Let_def nullish_def[of "Some source"])
    next
      case ambiguous
      then show ?thesis
        by (simp add: copyColumnLayout_def Let_def nullish_def[of "Some source"])
    qed
  qed
  from a b show ?thesis by blast
qed

theorem copy_without_source_keys_witness:
  "pyPlain (js ''Inbox'') \<and> pyPlain (js ''T'') \<and>
   map_of [(js ''ListColumnsHorizontal-Jobs2'', js ''Array {}'')]
     (js ''ListColumnsHorizontal-Inbox'') = None \<and>
   map_of [(js ''ListColumnsHorizontal-Jobs2'', js ''Array {}'')]
     (js ''TableView Columns ListColumnsHorizontal-Inbox'') = None \<and>
   map_of [(js ''ListColumnsHorizontal-Jobs2'', js ''Array {}'')]
     (js ''TableView Column Widths ListColumnsHorizontal-Inbox'') = None \<and>
   \<not> ok (fst (copyPlistKeys sampleEnv [(js ''ListColumnsHorizontal-Jobs2'', js ''Array {}'')]
             LAYOUT_SUFFIXES (js ''Inbox'') (js ''T''))) \<and>
   snd (copyPlistKeys sampleEnv [(js ''ListColumnsHorizontal-Jobs2'', js ''Array {}'')]
             LAYOUT_SUFFIXES (js ''Inbox'') (js ''T'')) =
     [(js ''ListColumnsHorizontal-Jobs2'', js ''Array {}'')] \<and>
   \<not> success (fst (copyColumnLayout sampleEnv [(js ''ListColumnsHorizontal-Jobs2'', js ''Array {}'')]
                  (Some (js ''Inbox'')) (Some (js ''T'')) None None)) \<and>
   snd (copyColumnLayout sampleEnv [(js ''ListColumnsHorizontal-Jobs2'', js ''Array {}'')]
                  (Some (js ''Inbox'')) (Some (js ''T'')) None None) =
     [(js ''ListColumnsHorizontal-Jobs2'', js ''Array {}'')]"
proof -
  let ?data = "[(js ''ListColumnsHorizontal-Jobs2'', js ''Array {}'')]"
  have p: "pyPlain (js ''Inbox'')" "pyPlain (js ''T'')"
    by (simp_all add: pyPlain_def isHighSurrogate_def isLowSurrogate_def js_def)
  have p3: "pyPlain (nullish None (nullish (Some (js ''T'')) []))"
    using p(2) by (simp add: nullish_def)
  have h: "\<forall>s\<in>set LAYOUT_SUFFIXES. map_of ?data (s @ js ''-'' @ js ''Inbox'') = None"
    by (simp add: LAYOUT_SUFFIXES_def js_def)
  have f: "findMatchingNames sampleEnv ?data (js ''Inbox'') = []"
    by (simp add: layout_eval)
  have m: "map_of ?data (js ''ListColumnsHorizontal-Inbox'') = None \<and>
           map_of ?data (js ''TableView Columns ListColumnsHorizontal-Inbox'') = None \<and>
           map_of ?data (js ''TableView Column Widths ListColumnsHorizontal-Inbox'') = None"
    by (simp add: js_def)
  from copy_without_source_keys[OF p(1) p(2) p3 h, of sampleEnv None] p m
  show ?thesis by (simp add: f)
qed

text \<open>
  The known names come in the order of Python, by code point: a name with a character
  above \<^verbatim>\<open>U+FFFF\<close> (here \<^verbatim>\<open>U+1F600\<close>, two code units) follows one with \<^verbatim>\<open>U+FF5E\<close>.
\<close>

lemma getExistingNames_code_point_order:
  "getExistingNames sampleEnv
     [(js ''ListColumnsHorizontal-x'' @ [55357, 56832], js ''Array {}''),
      (js ''ListColumnsHorizontal-x'' @ [65374], js ''Array {}'')] 200 =
   [js ''x'' @ [65374], js ''x'' @ [55357, 56832]]"
  by (simp add: layout_eval)

text \<open>
  Claim C6, as stated, fails for \<^verbatim>\<open>copy_column_layout\<close> when there are more than eight
  candidates.  Nine base names contain \<^verbatim>\<open>a\<close>; the failure lists \<^verbatim>\<open>a1\<close> to \<^verbatim>\<open>a8\<close>
  and does not mention \<^verbatim>\<open>a9\<close>.
\<close>

definition nineLayouts :: "jsstring store" where
  "nineLayouts = map (\<lambda>n. (js ''ListColumnsHorizontal-a'' @ [n], js ''Array {}''))
                   [49, 50, 51, 52, 53, 54, 55, 56, 57]"

theorem ambiguous_candidates_counterexample:
  "findMatchingNames sampleEnv nineLayouts (js ''a'') =
     [js ''a1'', js ''a2'', js ''a3'', js ''a4'', js ''a5'', js ''a6'', js ''a7'', js ''a8'', js ''a9''] \<and>
   error (fst (copyColumnLayout sampleEnv nineLayouts (Some (js ''a'')) (Some (js ''T'')) None None)) =
     Some (js ''Ambiguous source name '' @ dq @ js ''a'' @ dq @
           js ''. Multiple matches: a1, a2, a3, a4, a5, a6, a7, a8'') \<and>
   \<not> stringIncludes
       (js ''Ambiguous source name '' @ dq @ js ''a'' @ dq @
        js ''. Multiple matches: a1, a2, a3, a4, a5, a6, a7, a8'') (js ''a9'')"
proof -
  have f: "findMatchingNames sampleEnv nineLayouts (js ''a'') =
     [js ''a1'', js ''a2'', js ''a3'', js ''a4'', js ''a5'', js ''a6'', js ''a7'', js ''a8'', js ''a9'']"
    by (simp add: layout_eval nineLayouts_def)
  have n: "readLayoutForName sampleEnv nineLayouts (js ''a'') = None"
    by (simp add: layout_eval nineLayouts_def)
  have r: "resolveSource sampleEnv nineLayouts (js ''a'') None =
     Inl [js ''a1'', js ''a2'', js ''a3'', js ''a4'', js ''a5'', js ''a6'', js ''a7'', js ''a8'', js ''a9'']"
    by (simp add: resolveSource_def n f)
  have e: "error (fst (copyColumnLayout sampleEnv nineLayouts (Some (js ''a'')) (Some (js ''T'')) None None)) =
     Some (js ''Ambiguous source name '' @ dq @ js ''a'' @ dq @
           js ''. Multiple matches: a1, a2, a3, a4, a5, a6, a7, a8'')"
  proof -
    have "error (fst (copyColumnLayout sampleEnv nineLayouts (Some (js ''a'')) (Some (js ''T'')) None None)) =
       Some (js ''Ambiguous source name '' @ dq @ js ''a'' @ dq @ js ''. Multiple matches: '' @
             joinWith (js '', '') (take 8
               [js ''a1'', js ''a2'', js ''a3'', js ''a4'', js ''a5'', js ''a6'', js ''a7'', js ''a8'', js ''a9'']))"
      by (simp add: copyColumnLayout_def r nullish_def Let_def)
    moreover have "js ''. Multiple matches: '' @ joinWith (js '', '') (take 8
               [js ''a1'', js ''a2'', js ''a3'', js ''a4'', js ''a5'', js ''a6'', js ''a7'', js ''a8'', js ''a9'']) =
          js ''. Multiple matches: a1, a2, a3, a4, a5, a6, a7, a8''"
      by (simp add: js_def)
    ultimately show ?thesis by simp
  qed
  have i: "\<not> stringIncludes
       (js ''Ambiguous source name '' @ dq @ js ''a'' @ dq @
        js ''. Multiple matches: a1, a2, a3, a4, a5, a6, a7, a8'') (js ''a9'')"
    by (simp add: stringIncludes_def js_def dq_def)
  from f e i show ?thesis by blast
qed

text \<open>
  Claim C6, amended.  The known base names are the first 200, in the order of their code
  points, that \<^verbatim>\<open>getExistingNames\<close> returns; the candidates are those that contain the
  query, both in lower case.  When the
  query has no readable layout of its own, the uuid fallback has none either, and there
  is more than one candidate, \<^verbatim>\<open>get_column_layout\<close> fails and reports all candidates as
  \<^verbatim>\<open>partialMatches\<close>, and \<^verbatim>\<open>copy_column_layout\<close> fails with a message that lists the
  first eight candidates, resolves no source and leaves the store unchanged.
\<close>

theorem ambiguous_candidates:
  assumes "q \<noteq> []" "t \<noteq> []"
    and "readLayoutForName env data q = None"
    and "falsy uuidArg \<or> readLayoutForName env data (nullish uuidArg []) = None"
    and "length (findMatchingNames env data q) > 1"
  shows "findMatchingNames env data q =
           filter (\<lambda>n. stringIncludes (toLowerCase env n) (toLowerCase env q))
             (getExistingNames env data 200) \<and>
         \<not> success (getColumnLayout env data (Some q) uuidArg) \<and>
         layout (getColumnLayout env data (Some q) uuidArg) = None \<and>
         partialMatches (getColumnLayout env data (Some q) uuidArg) =
           Some (findMatchingNames env data q) \<and>
         \<not> success (fst (copyColumnLayout env data (Some q) (Some t) uuidArg targetUuid)) \<and>
         error (fst (copyColumnLayout env data (Some q) (Some t) uuidArg targetUuid)) =
           Some (js ''Ambiguous source name '' @ dq @ q @ dq @ js ''. Multiple matches: '' @
                 joinWith (js '', '') (take 8 (findMatchingNames env data q))) \<and>
         resolvedSourceKey (fst (copyColumnLayout env data (Some q) (Some t) uuidArg targetUuid)) = None \<and>
         snd (copyColumnLayout env data (Some q) (Some t) uuidArg targetUuid) = data"
proof -
  have r: "resolveSource env data q uuidArg = Inl (findMatchingNames env data q)"
    using assms(3,4,5) by (auto simp: resolveSource_def Let_def)
  have g: "\<not> success (getColumnLayout env data (Some q) uuidArg) \<and>
         layout (getColumnLayout env data (Some q) uuidArg) = None \<and>
         partialMatches (getColumnLayout env data (Some q) uuidArg) =
           Some (findMatchingNames env data q)"
  proof (cases "falsy uuidArg")
    case True
    with assms(1,3,5) show ?thesis
      by (simp add: getColumnLayout_def nullish_def Let_def)
  next
    case False
    with assms(4) have "readLayoutForName env data (nullish uuidArg []) = None" by simp
    with False assms(1,3,5) show ?thesis
      by (simp add: getColumnLayout_def nullish_def[of "Some q"] Let_def)
  qed
  have c: "\<not> success (fst (copyColumnLayout env data (Some q) (Some t) uuidArg targetUuid)) \<and>
         error (fst (copyColumnLayout env data (Some q) (Some t) uuidArg targetUuid)) =
           Some (js ''Ambiguous source name '' @ dq @ q @ dq @ js ''. Multiple matches: '' @
                 joinWith (js '', '') (take 8 (findMatchingNames env data q))) \<and>
         resolvedSourceKey (fst (copyColumnLayout env data (Some q) (Some t) uuidArg targetUuid)) = None \<and>
         snd (copyColumnLayout env data (Some q) (Some t) uuidArg targetUuid) = data"
    using assms(1,2) by (simp add: copyColumnLayout_def nullish_def Let_def r)
  have f: "findMatchingNames env data q =
           filter (\<lambda>n. stringIncludes (toLowerCase env n) (toLowerCase env q))
             (getExistingNames env data 200)"
    by (simp add: findMatchingNames_def Let_def)
  from f g c show ?thesis by blast
qed

definition jobsLayouts :: "jsstring store" where
  "jobsLayouts =
     [(js ''ListColumnsHorizontal-Jobs - Review'', js ''Array {}''),
      (js ''ListColumnsHorizontal-Jobs - Archive'', js ''Array {}'')]"

theorem ambiguous_candidates_witness:
  "js ''jobs'' \<noteq> [] \<and> js ''T'' \<noteq> [] \<and>
   readLayoutForName sampleEnv jobsLayouts (js ''jobs'') = None \<and>
   length (findMatchingNames sampleEnv jobsLayouts (js ''jobs'')) > 1 \<and>
   \<not> success (getColumnLayout sampleEnv jobsLayouts (Some (js ''jobs'')) None) \<and>
   partialMatches (getColumnLayout sampleEnv jobsLayouts (Some (js ''jobs'')) None) =
     Some [js ''Jobs - Archive'', js ''Jobs - Review''] \<and>
   \<not> success (fst (copyColumnLayout sampleEnv jobsLayouts (Some (js ''jobs'')) (Some (js ''T'')) None None)) \<and>
   error (fst (copyColumnLayout sampleEnv jobsLayouts (Some (js ''jobs'')) (Some (js ''T'')) None None)) =
     Some (js ''Ambiguous source name '' @ dq @ js ''jobs'' @ dq @
           js ''. Multiple matches: Jobs - Archive, Jobs - Review'') \<and>
   snd (copyColumnLayout sampleEnv jobsLayouts (Some (js ''jobs'')) (Some (js ''T'')) None None) =
     jobsLayouts"
proof -
  have h1: "js ''jobs'' \<noteq> []" "js ''T'' \<noteq> []" by (simp_all add: js_def)
  have h3: "readLayoutForName sampleEnv jobsLayouts (js ''jobs'') = None"
    by (simp add: layout_eval jobsLayouts_def)
  have f: "findMatchingNames sampleEnv jobsLayouts (js ''jobs'') =
             [js ''Jobs - Archive'', js ''Jobs - Review'']"
    by (simp add: layout_eval jobsLayouts_def)
  have h5: "length (findMatchingNames sampleEnv jobsLayouts (js ''jobs'')) > 1"
    by (simp add: f)
  have h4: "falsy None \<or> readLayoutForName sampleEnv jobsLayouts (nullish None []) = None"
    by simp
  have j: "joinWith (js '', '') [js ''Jobs - Archive'', js ''Jobs - Review''] =
           js ''Jobs - Archive, Jobs - Review''"
    by (simp add: js_def)
  from ambiguous_candidates[OF h1 h3 h4 h5, of None] h1 h3 h5
  show ?thesis
    unfolding f by (simp add: j js_append[symmetric] del: append_assoc)
qed

section \<open>The e-mail header parser\<close>

lemma indexOf_zero: "indexOf s pat 0 = indexOf0 pat s"
  by (cases "indexOf0 pat s") (simp_all add: indexOf_def)

lemma indexOf0_None_iff:
  "pat \<noteq> [] \<Longrightarrow> indexOf0 pat s = None \<longleftrightarrow> (\<forall>i. \<not> prefix pat (drop i s))"
proof (induction s)
  case Nil
  then show ?case by simp
next
  case (Cons x xs)
  have "(\<forall>i. \<not> prefix pat (drop i (x # xs))) \<longleftrightarrow>
        \<not> prefix pat (x # xs) \<and> (\<forall>i. \<not> prefix pat (drop i xs))"
  proof
    assume a: "\<forall>i. \<not> prefix pat (drop i (x # xs))"
    from a[rule_format, of 0] have "\<not> prefix pat (x # xs)" by simp
    moreover have "\<not> prefix pat (drop i xs)" for i
      using a[rule_format, of "Suc i"] by simp
    ultimately show "\<not> prefix pat (x # xs) \<and> (\<forall>i. \<not> prefix pat (drop i xs))" by blast
  next
    assume a: "\<not> prefix pat (x # xs) \<and> (\<forall>i. \<not> prefix pat (drop i xs))"
    show "\<forall>i. \<not> prefix pat (drop i (x # xs))"
    proof
      fix i
      show "\<not> prefix pat (drop i (x # xs))" using a by (cases i) simp_all
    qed
  qed
  with Cons show ?case by auto
qed

lemma indexOf0_Some_iff:
  assumes "pat \<noteq> []"
  shows "indexOf0 pat s = Some i \<longleftrightarrow> prefix pat (drop i s) \<and> (\<forall>j<i. \<not> prefix pat (drop j s))"
proof
  assume "indexOf0 pat s = Some i"
  then show "prefix pat (drop i s) \<and> (\<forall>j<i. \<not> prefix pat (drop j s))"
    by (rule indexOf0_first)
next
  assume a: "prefix pat (drop i s) \<and> (\<forall>j<i. \<not> prefix pat (drop j s))"
  then have "indexOf0 pat s \<noteq> None"
    using indexOf0_None_iff[OF assms, of s] by blast
  then obtain k where k: "indexOf0 pat s = Some k" by blast
  from indexOf0_first[OF k] a have "\<not> k < i" "\<not> i < k" by blast+
  with k show "indexOf0 pat s = Some i" by simp
qed

text \<open>A blank-line separator starts at offset \<open>i\<close>.\<close>

definition isSeparatorAt :: "jsstring \<Rightarrow> nat \<Rightarrow> bool" where
  "isSeparatorAt raw i \<longleftrightarrow> prefix [13, 10, 13, 10] (drop i raw) \<or> prefix [10, 10] (drop i raw)"

lemma headerSectionOf_first:
  assumes sep: "isSeparatorAt raw i" and first: "\<forall>j<i. \<not> isSeparatorAt raw j"
  shows "headerSectionOf raw = take i raw"
proof -
  have nc: "\<forall>j<i. \<not> prefix [13, 10, 13, 10] (drop j raw)"
    and nl: "\<forall>j<i. \<not> prefix [10, 10] (drop j raw)"
    using first by (auto simp: isSeparatorAt_def)
  have later_c: "i \<le> c" if "indexOf0 [13, 10, 13, 10] raw = Some c" for c
  proof (rule ccontr)
    assume "\<not> i \<le> c"
    with nc indexOf0_first[OF that] show False by auto
  qed
  have later_l: "i \<le> l" if "indexOf0 [10, 10] raw = Some l" for l
  proof (rule ccontr)
    assume "\<not> i \<le> l"
    with nl indexOf0_first[OF that] show False by auto
  qed
  show ?thesis
  proof (cases "prefix [13, 10, 13, 10] (drop i raw)")
    case True
    with nc have c: "indexOf0 [13, 10, 13, 10] raw = Some i"
      by (simp add: indexOf0_Some_iff)
    from True have "\<not> prefix [10, 10] (drop i raw)"
      by (cases "drop i raw") auto
    then have "l \<noteq> i" if "indexOf0 [10, 10] raw = Some l" for l
      using indexOf0_first[OF that] by auto
    with later_l have "i < l" if "indexOf0 [10, 10] raw = Some l" for l
      using that by fastforce
    with c show ?thesis
      by (auto simp: headerSectionOf_def indexOf_zero slice_def Let_def split: option.splits)
  next
    case False
    with sep have l: "prefix [10, 10] (drop i raw)" by (simp add: isSeparatorAt_def)
    with nl have li: "indexOf0 [10, 10] raw = Some i"
      by (simp add: indexOf0_Some_iff)
    from False have "c \<noteq> i" if "indexOf0 [13, 10, 13, 10] raw = Some c" for c
      using indexOf0_first[OF that] by auto
    with later_c have "i < c" if "indexOf0 [13, 10, 13, 10] raw = Some c" for c
      using that by fastforce
    with li show ?thesis
      by (auto simp: headerSectionOf_def indexOf_zero slice_def Let_def split: option.splits)
  qed
qed

lemma headerSectionOf_none:
  assumes "\<forall>i. \<not> isSeparatorAt raw i"
  shows "headerSectionOf raw = raw"
proof -
  from assms have "indexOf0 [13, 10, 13, 10] raw = None" "indexOf0 [10, 10] raw = None"
    by (simp_all add: indexOf0_None_iff isSeparatorAt_def)
  then show ?thesis by (simp add: headerSectionOf_def indexOf_zero)
qed

text \<open>
  Claim C4.  The header section is what precedes the first blank-line separator, CR LF CR
  LF or LF LF, whichever starts first; without a separator it is all that was read.  In
  either case \<^verbatim>\<open>parseEmlHeaders\<close> returns a success result once the file was read.
\<close>

theorem header_section_boundary:
  "(\<forall>i. isSeparatorAt raw i \<and> (\<forall>j<i. \<not> isSeparatorAt raw j) \<longrightarrow>
        headerSectionOf raw = take i raw) \<and>
   ((\<forall>i. \<not> isSeparatorAt raw i) \<longrightarrow> headerSectionOf raw = raw) \<and>
   success (parseEmlHeaders env (Some (c # path)) True (Inr raw)) \<and>
   error (parseEmlHeaders env (Some (c # path)) True (Inr raw)) = None \<and>
   subject (parseEmlHeaders env (Some (c # path)) True (Inr raw)) =
     getHeader env (parseHeaders (lowerCase env) (headerSectionOf raw)) (js ''subject'')"
  using headerSectionOf_first[of raw] headerSectionOf_none[of raw]
  by (simp add: parseEmlHeaders_def Let_def)

theorem header_section_boundary_witness:
  "isSeparatorAt (js ''A: b'' @ [13, 10, 13, 10] @ js ''x'' @ [10, 10] @ js ''y'') 4 \<and>
   headerSectionOf (js ''A: b'' @ [13, 10, 13, 10] @ js ''x'' @ [10, 10] @ js ''y'') = js ''A: b'' \<and>
   (\<forall>i. \<not> isSeparatorAt (js ''A: b'' @ [13, 10] @ js ''C: d'') i) \<and>
   headerSectionOf (js ''A: b'' @ [13, 10] @ js ''C: d'') = js ''A: b'' @ [13, 10] @ js ''C: d''"
proof -
  let ?raw = "js ''A: b'' @ [13, 10, 13, 10] @ js ''x'' @ [10, 10] @ js ''y''"
  let ?raw2 = "js ''A: b'' @ [13, 10] @ js ''C: d''"
  have s: "isSeparatorAt ?raw 4" by (simp add: isSeparatorAt_def js_def)
  have f: "\<forall>j<4. \<not> isSeparatorAt ?raw j"
  proof (intro allI impI)
    fix j :: nat
    assume "j < 4"
    then have "j = 0 \<or> j = 1 \<or> j = 2 \<or> j = 3" by arith
    then show "\<not> isSeparatorAt ?raw j"
      by (auto simp: isSeparatorAt_def js_def)
  qed
  have n: "\<forall>i. \<not> isSeparatorAt ?raw2 i"
  proof -
    have "indexOf0 [13, 10, 13, 10] ?raw2 = None" "indexOf0 [10, 10] ?raw2 = None"
      by (simp_all add: js_def)
    then show ?thesis by (simp add: indexOf0_None_iff isSeparatorAt_def)
  qed
  from header_section_boundary[of ?raw nodeEnv 47 "[]"] s f
  have 1: "headerSectionOf ?raw = js ''A: b''" by (simp add: js_def)
  from header_section_boundary[of ?raw2 nodeEnv 47 "[]"] n
  have 2: "headerSectionOf ?raw2 = ?raw2" by simp
  from s n 1 2 show ?thesis by blast
qed

text \<open>
  The header fields of a section as they are written: the loop of \<^verbatim>\<open>parseHeaders\<close>
  without the map, collecting each name (trimmed, in its own letter case) with its raw
  value, continuation lines included, in the order of the section.
\<close>

fun fieldsLoop ::
  "jsstring list \<Rightarrow> (jsstring \<times> jsstring) option \<Rightarrow> (jsstring \<times> jsstring) list" where
  "fieldsLoop [] cur = (case cur of None \<Rightarrow> [] | Some f \<Rightarrow> [f])"
| "fieldsLoop (line # rest) cur =
     (if line = [] then (case cur of None \<Rightarrow> [] | Some f \<Rightarrow> [f])
      else if hd line = 32 \<or> hd line = 9 then
        (case cur of
           Some (n, v) \<Rightarrow> fieldsLoop rest (Some (n, v @ [10] @ line))
         | None \<Rightarrow> fieldsLoop rest None)
      else
        (case cur of None \<Rightarrow> [] | Some f \<Rightarrow> [f]) @
        (case indexOf line (js '':'') 0 of
           Some colonIdx \<Rightarrow>
             if colonIdx > 0
             then fieldsLoop rest
                    (Some (trim (slice line 0 colonIdx), slice line (colonIdx + 1) (length line)))
             else fieldsLoop rest None
         | None \<Rightarrow> fieldsLoop rest None))"

definition headerFields :: "jsstring \<Rightarrow> (jsstring \<times> jsstring) list" where
  "headerFields headerSection = fieldsLoop (splitLines (normaliseCRLF headerSection)) None"

text \<open>What \<^verbatim>\<open>flush\<close> does to the map for one field.\<close>

definition storeField ::
  "(jsstring \<Rightarrow> jsstring) \<Rightarrow> (jsstring \<rightharpoonup> jsstring) \<Rightarrow> jsstring \<times> jsstring \<Rightarrow>
   (jsstring \<rightharpoonup> jsstring)" where
  "storeField lower hs f =
     (case hs (lower (fst f)) of
        Some old \<Rightarrow> hs(lower (fst f) \<mapsto> old @ [10] @ trim (unfoldValue (snd f)))
      | None \<Rightarrow> hs(lower (fst f) \<mapsto> trim (unfoldValue (snd f))))"

definition pendingField :: "HeaderState \<Rightarrow> (jsstring \<times> jsstring) option" where
  "pendingField st = (case currentName st of None \<Rightarrow> None | Some n \<Rightarrow> Some (n, currentValue st))"

lemma flush_storeField:
  "flush lower st =
     foldl (storeField lower) (headers st)
       (case pendingField st of None \<Rightarrow> [] | Some f \<Rightarrow> [f])"
  by (simp add: flush_def storeField_def pendingField_def Let_def split: option.splits)

lemma headerLoop_fields:
  "flush lower (headerLoop lower lines st) =
     foldl (storeField lower) (headers st) (fieldsLoop lines (pendingField st))"
proof (induction lines arbitrary: st)
  case Nil
  show ?case by (simp add: flush_storeField)
next
  case (Cons line rest)
  show ?case
  proof (cases "line = []")
    case True
    then show ?thesis by (simp add: flush_storeField)
  next
    case ne: False
    show ?thesis
    proof (cases "hd line = 32 \<or> hd line = 9")
      case True
      with ne show ?thesis
        by (cases "currentName st") (simp_all add: Cons.IH pendingField_def)
    next
      case False
      define nv where "nv =
        (case indexOf line (js '':'') 0 of
           Some colonIdx \<Rightarrow>
             if colonIdx > 0
             then Some (trim (slice line 0 colonIdx), slice line (colonIdx + 1) (length line))
             else None
         | None \<Rightarrow> None)"
      define st' where "st' =
        \<lparr>currentName = map_option fst nv, currentValue = (case nv of None \<Rightarrow> [] | Some f \<Rightarrow> snd f),
         headers = flush lower st\<rparr>"
      have step: "headerLoop lower (line # rest) st = headerLoop lower rest st'"
        using ne False
        by (simp add: st'_def nv_def Let_def split: option.splits)
      have pf: "pendingField st' = nv"
        by (cases nv) (auto simp: st'_def pendingField_def)
      have fl: "fieldsLoop (line # rest) (pendingField st) =
                  (case pendingField st of None \<Rightarrow> [] | Some f \<Rightarrow> [f]) @ fieldsLoop rest nv"
        using ne False by (simp add: nv_def split: option.splits)
      have "flush lower (headerLoop lower (line # rest) st) =
              foldl (storeField lower) (headers st') (fieldsLoop rest (pendingField st'))"
        unfolding step by (rule Cons.IH)
      also have "headers st' = flush lower st" by (simp add: st'_def)
      also have "flush lower st = foldl (storeField lower) (headers st)
                   (case pendingField st of None \<Rightarrow> [] | Some f \<Rightarrow> [f])"
        by (rule flush_storeField)
      finally show ?thesis
        unfolding pf fl by simp
    qed
  qed
qed

lemma parseHeaders_fields:
  "parseHeaders lower headerSection = foldl (storeField lower) Map.empty (headerFields headerSection)"
  by (simp add: parseHeaders_def headerFields_def headerLoop_fields pendingField_def Let_def)

text \<open>The values stored under one key: joined by line feeds, in order.\<close>

definition joined :: "jsstring list \<Rightarrow> jsstring option" where
  "joined vs = (if vs = [] then None else Some (joinWith [10] vs))"

lemma joinWith_snoc: "vs \<noteq> [] \<Longrightarrow> joinWith sep (vs @ [v]) = joinWith sep vs @ sep @ v"
  by (induction sep vs rule: joinWith.induct) auto

lemma foldl_storeField_lookup:
  assumes "hs k = joined vs0"
  shows "foldl (storeField lower) hs fs k =
           joined (vs0 @ map (\<lambda>f. trim (unfoldValue (snd f))) (filter (\<lambda>f. lower (fst f) = k) fs))"
  using assms
proof (induction fs arbitrary: hs vs0)
  case Nil
  then show ?case by simp
next
  case (Cons f fs)
  show ?case
  proof (cases "lower (fst f) = k")
    case True
    have "storeField lower hs f k = joined (vs0 @ [trim (unfoldValue (snd f))])"
      using Cons.prems True
      by (cases "vs0 = []") (auto simp: storeField_def joined_def joinWith_snoc)
    from Cons.IH[of "storeField lower hs f" "vs0 @ [trim (unfoldValue (snd f))]", OF this] True
    show ?thesis by simp
  next
    case False
    then have "storeField lower hs f k = joined vs0"
      using Cons.prems by (auto simp: storeField_def split: option.splits)
    from Cons.IH[of "storeField lower hs f" vs0, OF this] False show ?thesis by simp
  qed
qed

lemma parseHeaders_lookup:
  "parseHeaders lower headerSection k =
     joined (map (\<lambda>f. trim (unfoldValue (snd f)))
               (filter (\<lambda>f. lower (fst f) = k) (headerFields headerSection)))"
  using foldl_storeField_lookup[of Map.empty k "[]" lower "headerFields headerSection"]
  by (simp add: parseHeaders_fields joined_def)

text \<open>
  What the result reports for a lower-case key, said with the fields of the header
  section as they are written: the unfolded values of the fields whose name is the key
  in any letter case, joined by line feeds in the order of the section, then trimmed and
  decoded; \<^verbatim>\<open>null\<close> when there is no such field.
\<close>

definition headerValue :: "EmlEnv \<Rightarrow> jsstring \<Rightarrow> jsstring \<Rightarrow> jsstring option" where
  "headerValue env raw key =
     (case joined (map (\<lambda>f. trim (unfoldValue (snd f)))
                    (filter (\<lambda>f. lowerCase env (fst f) = key)
                       (headerFields (headerSectionOf raw)))) of
        None \<Rightarrow> None
      | Some v \<Rightarrow> Some (decodeEncodedWords env (trim v)))"

lemma getHeader_headerValue:
  "getHeader env (parseHeaders (lowerCase env) (headerSectionOf raw)) key = headerValue env raw key"
  by (simp add: getHeader_def headerValue_def parseHeaders_lookup)

lemma parseReferences_Nil: "parseReferences [] = []"
  by simp

text \<open>
  Claim C9.  For every header section and every key, the map \<^verbatim>\<open>parseHeaders\<close> returns
  holds under the key the unfolded values of all fields whose lower-cased name is the
  key, joined by line feeds in the order of the section, and nothing if there is no such
  field: the letter case of a written name does not matter, and repeated names are
  merged.  Every field of the result of \<^verbatim>\<open>parseEmlHeaders\<close> is the value of its
  lower-case key, whatever the letter case of the names in the file: \<^verbatim>\<open>message-id\<close>,
  \<^verbatim>\<open>in-reply-to\<close>, \<^verbatim>\<open>subject\<close>, \<^verbatim>\<open>from\<close>, \<^verbatim>\<open>to\<close>, \<^verbatim>\<open>cc\<close> and \<^verbatim>\<open>date\<close> as they are,
  \<^verbatim>\<open>references\<close> split into its bracketed parts.
\<close>

theorem header_names_case_insensitive:
  "parseHeaders lower headerSection k =
     joined (map (\<lambda>f. trim (unfoldValue (snd f)))
               (filter (\<lambda>f. lower (fst f) = k) (headerFields headerSection))) \<and>
   subject (parseEmlHeaders env (Some (c # path)) True (Inr raw)) =
     getHeader env (parseHeaders (lowerCase env) (headerSectionOf raw)) (js ''subject'') \<and>
   fromHeader (parseEmlHeaders env (Some (c # path)) True (Inr raw)) =
     getHeader env (parseHeaders (lowerCase env) (headerSectionOf raw)) (js ''from'') \<and>
   messageId (parseEmlHeaders env (Some (c # path)) True (Inr raw)) =
     getHeader env (parseHeaders (lowerCase env) (headerSectionOf raw)) (js ''message-id'') \<and>
   headerFields (js ''Subject: a'' @ [10] @ js ''SUBJECT: b'') =
     [(js ''Subject'', js '' a''), (js ''SUBJECT'', js '' b'')] \<and>
   parseHeaders asciiLower (js ''Subject: a'' @ [10] @ js ''SUBJECT: b'') (js ''subject'') =
     Some (js ''a'' @ [10] @ js ''b'') \<and>
   parseEmlHeaders env (Some (c # path)) True (Inr raw) =
     \<lparr>success = True, error = None, filePath = Some (c # path),
      messageId = headerValue env raw (js ''message-id''),
      inReplyTo = headerValue env raw (js ''in-reply-to''),
      references = Some (case headerValue env raw (js ''references'') of
                           None \<Rightarrow> []
                         | Some refs \<Rightarrow> parseReferences refs),
      subject = headerValue env raw (js ''subject''),
      fromHeader = headerValue env raw (js ''from''),
      toHeader = headerValue env raw (js ''to''),
      ccHeader = headerValue env raw (js ''cc''),
      dateHeader = headerValue env raw (js ''date'')\<rparr>"
proof -
  have 1: "parseHeaders lower headerSection k =
     joined (map (\<lambda>f. trim (unfoldValue (snd f)))
               (filter (\<lambda>f. lower (fst f) = k) (headerFields headerSection)))"
    by (rule parseHeaders_lookup)
  have 2: "headerFields (js ''Subject: a'' @ [10] @ js ''SUBJECT: b'') =
     [(js ''Subject'', js '' a''), (js ''SUBJECT'', js '' b'')]"
    by (simp add: headerFields_def js_def indexOf_def slice_def trim_def isWhiteSpace_def)
  have 3: "parseHeaders asciiLower (js ''Subject: a'' @ [10] @ js ''SUBJECT: b'') (js ''subject'') =
     Some (js ''a'' @ [10] @ js ''b'')"
    using foldl_storeField_lookup[of Map.empty "js ''subject''" "[]" asciiLower
        "headerFields (js ''Subject: a'' @ [10] @ js ''SUBJECT: b'')"]
    unfolding parseHeaders_fields 2
    by (simp add: joined_def asciiLower_def js_def trim_def isWhiteSpace_def)
  have 4: "subject (parseEmlHeaders env (Some (c # path)) True (Inr raw)) =
     getHeader env (parseHeaders (lowerCase env) (headerSectionOf raw)) (js ''subject'') \<and>
   fromHeader (parseEmlHeaders env (Some (c # path)) True (Inr raw)) =
     getHeader env (parseHeaders (lowerCase env) (headerSectionOf raw)) (js ''from'') \<and>
   messageId (parseEmlHeaders env (Some (c # path)) True (Inr raw)) =
     getHeader env (parseHeaders (lowerCase env) (headerSectionOf raw)) (js ''message-id'')"
    by (simp add: parseEmlHeaders_def Let_def)
  have 5: "parseEmlHeaders env (Some (c # path)) True (Inr raw) =
     \<lparr>success = True, error = None, filePath = Some (c # path),
      messageId = headerValue env raw (js ''message-id''),
      inReplyTo = headerValue env raw (js ''in-reply-to''),
      references = Some (case headerValue env raw (js ''references'') of
                           None \<Rightarrow> []
                         | Some refs \<Rightarrow> parseReferences refs),
      subject = headerValue env raw (js ''subject''),
      fromHeader = headerValue env raw (js ''from''),
      toHeader = headerValue env raw (js ''to''),
      ccHeader = headerValue env raw (js ''cc''),
      dateHeader = headerValue env raw (js ''date'')\<rparr>"
    by (cases "headerValue env raw (js ''references'')")
       (auto simp: parseEmlHeaders_def Let_def getHeader_headerValue nullish_def)
  from 1 2 3 4 5 show ?thesis by blast
qed

text \<open>
  A message whose header names are written in several letter cases, with two subject
  lines: every field is found, and the subjects are merged.
\<close>

definition mixedCaseMessage :: jsstring where
  "mixedCaseMessage =
     js ''SUBJECT: Hi'' @ [13, 10] @
     js ''Message-ID: <1@x>'' @ [13, 10] @
     js ''IN-REPLY-TO: <0@x>'' @ [13, 10] @
     js ''References: <a@x> <0@x>'' @ [13, 10] @
     js ''from: A'' @ [13, 10] @
     js ''TO: B'' @ [13, 10] @
     js ''Cc: C'' @ [13, 10] @
     js ''DATE: D'' @ [13, 10] @
     js ''subject: there'' @ [13, 10, 13, 10] @
     js ''Subject: in the body''"

lemma decodeEncodedWords_plain: "61 \<notin> set s \<Longrightarrow> decodeEncodedWords env s = s"
  by (induction s) (auto simp: matchEncodedWord_def js_def)

theorem header_names_case_insensitive_witness:
  "headerFields (headerSectionOf mixedCaseMessage) =
     [(js ''SUBJECT'', js '' Hi''), (js ''Message-ID'', js '' <1@x>''),
      (js ''IN-REPLY-TO'', js '' <0@x>''), (js ''References'', js '' <a@x> <0@x>''),
      (js ''from'', js '' A''), (js ''TO'', js '' B''), (js ''Cc'', js '' C''),
      (js ''DATE'', js '' D''), (js ''subject'', js '' there'')] \<and>
   parseEmlHeaders nodeEnv (Some (js ''/m.eml'')) True (Inr mixedCaseMessage) =
     \<lparr>success = True, error = None, filePath = Some (js ''/m.eml''),
      messageId = Some (js ''<1@x>''),
      inReplyTo = Some (js ''<0@x>''),
      references = Some [js ''<a@x>'', js ''<0@x>''],
      subject = Some (js ''Hi'' @ [10] @ js ''there''),
      fromHeader = Some (js ''A''),
      toHeader = Some (js ''B''),
      ccHeader = Some (js ''C''),
      dateHeader = Some (js ''D'')\<rparr>"
proof -
  have s: "headerSectionOf mixedCaseMessage =
     js ''SUBJECT: Hi'' @ [13, 10] @
     js ''Message-ID: <1@x>'' @ [13, 10] @
     js ''IN-REPLY-TO: <0@x>'' @ [13, 10] @
     js ''References: <a@x> <0@x>'' @ [13, 10] @
     js ''from: A'' @ [13, 10] @
     js ''TO: B'' @ [13, 10] @
     js ''Cc: C'' @ [13, 10] @
     js ''DATE: D'' @ [13, 10] @
     js ''subject: there''"
    by (simp add: headerSectionOf_def mixedCaseMessage_def indexOf_zero slice_def js_def)
  have f: "headerFields (headerSectionOf mixedCaseMessage) =
     [(js ''SUBJECT'', js '' Hi''), (js ''Message-ID'', js '' <1@x>''),
      (js ''IN-REPLY-TO'', js '' <0@x>''), (js ''References'', js '' <a@x> <0@x>''),
      (js ''from'', js '' A''), (js ''TO'', js '' B''), (js ''Cc'', js '' C''),
      (js ''DATE'', js '' D''), (js ''subject'', js '' there'')]"
    unfolding s
    by (simp add: headerFields_def js_def indexOf_def slice_def trim_def isWhiteSpace_def)
  have lc: "lowerCase nodeEnv = asciiLower" by (simp add: nodeEnv_def)
  have v: "headerValue nodeEnv mixedCaseMessage (js ''message-id'') = Some (js ''<1@x>'')"
    "headerValue nodeEnv mixedCaseMessage (js ''in-reply-to'') = Some (js ''<0@x>'')"
    "headerValue nodeEnv mixedCaseMessage (js ''references'') = Some (js ''<a@x> <0@x>'')"
    "headerValue nodeEnv mixedCaseMessage (js ''subject'') = Some (js ''Hi'' @ [10] @ js ''there'')"
    "headerValue nodeEnv mixedCaseMessage (js ''from'') = Some (js ''A'')"
    "headerValue nodeEnv mixedCaseMessage (js ''to'') = Some (js ''B'')"
    "headerValue nodeEnv mixedCaseMessage (js ''cc'') = Some (js ''C'')"
    "headerValue nodeEnv mixedCaseMessage (js ''date'') = Some (js ''D'')"
    unfolding headerValue_def f lc
    by (simp_all add: joined_def asciiLower_def js_def trim_def isWhiteSpace_def
        isSpaceOrTab_def decodeEncodedWords_plain del: decodeEncodedWords.simps)
  have p: "parseReferences (js ''<a@x> <0@x>'') = [js ''<a@x>'', js ''<0@x>'']"
    by (simp add: js_def)
  from header_names_case_insensitive[of asciiLower "[]" "[]" nodeEnv 47 "js ''m.eml''" mixedCaseMessage]
  have "parseEmlHeaders nodeEnv (Some (47 # js ''m.eml'')) True (Inr mixedCaseMessage) =
     \<lparr>success = True, error = None, filePath = Some (47 # js ''m.eml''),
      messageId = Some (js ''<1@x>''),
      inReplyTo = Some (js ''<0@x>''),
      references = Some [js ''<a@x>'', js ''<0@x>''],
      subject = Some (js ''Hi'' @ [10] @ js ''there''),
      fromHeader = Some (js ''A''),
      toHeader = Some (js ''B''),
      ccHeader = Some (js ''C''),
      dateHeader = Some (js ''D'')\<rparr>"
    unfolding v by (simp add: p)
  moreover have "47 # js ''m.eml'' = js ''/m.eml''"
    by (simp add: js_def)
  ultimately show ?thesis using f by simp
qed

lemma takeWhile_until: "x \<notin> set xs \<Longrightarrow> takeWhile (\<lambda>c. c \<noteq> x) (xs @ x # r) = xs"
  by (induction xs) auto

lemma dropWhile_until: "x \<notin> set xs \<Longrightarrow> dropWhile (\<lambda>c. c \<noteq> x) (xs @ x # r) = x # r"
  by (induction xs) auto

lemma matchEncodedWord_word:
  assumes "cs \<noteq> []" "63 \<notin> set cs" "e \<in> {66, 98, 81, 113}" "63 \<notin> set t"
  shows "matchEncodedWord (js ''=?'' @ cs @ 63 # e # 63 # t @ js ''?='' @ rest) =
           Some (cs, e, t, rest)"
proof -
  have q: "js ''?='' = [63, 61]" by (simp add: js_def)
  have 1: "takeWhile (\<lambda>c. c \<noteq> 63) (cs @ 63 # e # 63 # t @ js ''?='' @ rest) = cs"
    using takeWhile_until[OF assms(2)] by simp
  have 2: "dropWhile (\<lambda>c. c \<noteq> 63) (cs @ 63 # e # 63 # t @ js ''?='' @ rest) =
             63 # e # 63 # t @ js ''?='' @ rest"
    using dropWhile_until[OF assms(2)] by simp
  have 3: "takeWhile (\<lambda>c. c \<noteq> 63) (t @ js ''?='' @ rest) = t"
    using takeWhile_until[OF assms(4)] by (simp add: q)
  have 4: "dropWhile (\<lambda>c. c \<noteq> 63) (t @ js ''?='' @ rest) = js ''?='' @ rest"
    using dropWhile_until[OF assms(4)] by (simp add: q)
  show ?thesis
    unfolding matchEncodedWord_def stripPrefix_append
    using assms(1,3) by (simp add: 1 2 3 4 Let_def)
qed

lemma decodeEncodedWords_word:
  assumes "cs \<noteq> []" "63 \<notin> set cs" "e \<in> {66, 98, 81, 113}" "63 \<notin> set t"
  shows "decodeEncodedWords env (js ''=?'' @ cs @ 63 # e # 63 # t @ js ''?='' @ rest) =
           decodeWord env (js ''=?'' @ cs @ 63 # e # 63 # t @ js ''?='') cs e t @
           decodeEncodedWords env rest"
proof -
  define w where "w = js ''=?'' @ cs @ 63 # e # 63 # t @ js ''?=''"
  obtain c r where cr: "w @ rest = c # r"
    by (cases "w @ rest") (simp_all add: w_def js_def)
  have m: "matchEncodedWord (c # r) = Some (cs, e, t, rest)"
    using matchEncodedWord_word[OF assms, of rest] cr by (simp add: w_def)
  have tk: "take (length (c # r) - length rest) (c # r) = w"
    unfolding cr[symmetric] by simp
  have "decodeEncodedWords env (c # r) = decodeWord env w cs e t @ decodeEncodedWords env rest"
    by (simp only: decodeEncodedWords.simps m option.case prod.case tk)
  then show ?thesis
    unfolding cr[symmetric] by (simp add: w_def)
qed

text \<open>
  Claim C5.  A substring \<^verbatim>\<open>=?charset?encoding?text?=\<close> at the start of what is still to
  be scanned, with a non-empty charset, an encoding letter among \<^verbatim>\<open>B b Q q\<close> and no
  \<^verbatim>\<open>?\<close> inside charset or text, is replaced by the bytes of the text (base64 for
  \<^verbatim>\<open>B\<close>; for \<^verbatim>\<open>Q\<close> underscores as spaces and \<^verbatim>\<open>=HH\<close> as the byte \<^verbatim>\<open>HH\<close>) read in the
  normalised charset, and stays as it is when \<^verbatim>\<open>toString\<close> throws; a character that
  starts no such substring is kept, and the scan goes on behind either.  With the Buffer
  functions of Node.js the base64 of the UTF-8 bytes of \<^verbatim>\<open>hello\<close> written with an
  e-acute (code unit 233) decodes to that word, also as the subject of a message.  The function is total: it returns a
  string for every input.
\<close>

theorem encoded_words_decoded:
  assumes "cs \<noteq> []" "63 \<notin> set cs" "e \<in> {66, 98, 81, 113}" "63 \<notin> set t"
  shows "decodeEncodedWords env (js ''=?'' @ cs @ [63, e, 63] @ t @ js ''?='' @ rest) =
           (case bufferToString env (csNorm env cs) (wordBytes env e t) of
              Some decoded \<Rightarrow> decoded
            | None \<Rightarrow> js ''=?'' @ cs @ [63, e, 63] @ t @ js ''?='') @
           decodeEncodedWords env rest \<and>
         wordBytes env e t =
           (if e = 66 \<or> e = 98 then bufferFromBase64 env t
            else map (\<lambda>c. c mod 256) (hexEscapes (map (\<lambda>c. if c = 95 then 32 else c) t))) \<and>
         (matchEncodedWord (c # s) = None \<longrightarrow>
            decodeEncodedWords env (c # s) = c # decodeEncodedWords env s) \<and>
         decodeEncodedWords nodeEnv (js ''=?UTF-8?B?aMOpbGxv?='') = [104, 233, 108, 108, 111] \<and>
         subject (parseEmlHeaders nodeEnv (Some (js ''/m.eml'')) True
                    (Inr (js ''Subject: =?UTF-8?B?aMOpbGxv?=''))) = Some [104, 233, 108, 108, 111]"
proof -
  have a: "decodeEncodedWords env (js ''=?'' @ cs @ [63, e, 63] @ t @ js ''?='' @ rest) =
           (case bufferToString env (csNorm env cs) (wordBytes env e t) of
              Some decoded \<Rightarrow> decoded
            | None \<Rightarrow> js ''=?'' @ cs @ [63, e, 63] @ t @ js ''?='') @
           decodeEncodedWords env rest"
    using decodeEncodedWords_word[OF assms, of env rest]
    by (simp add: decodeWord_def split: option.splits)
  have b: "wordBytes env e t =
           (if e = 66 \<or> e = 98 then bufferFromBase64 env t
            else map (\<lambda>c. c mod 256) (hexEscapes (map (\<lambda>c. if c = 95 then 32 else c) t)))"
    by (simp add: wordBytes_def)
  have c: "matchEncodedWord (c # s) = None \<longrightarrow>
            decodeEncodedWords env (c # s) = c # decodeEncodedWords env s"
    by simp
  have w: "js ''=?UTF-8?B?aMOpbGxv?='' =
           js ''=?'' @ js ''UTF-8'' @ [63, 66, 63] @ js ''aMOpbGxv'' @ js ''?='' @ []"
    by (simp add: js_def)
  have n: "csNorm nodeEnv (js ''UTF-8'') = js ''utf-8''"
    by (simp add: csNorm_def nodeEnv_def asciiLower_def js_def)
  have y: "wordBytes nodeEnv 66 (js ''aMOpbGxv'') = [104, 195, 169, 108, 108, 111]"
    by (simp add: wordBytes_def nodeEnv_def nodeFromBase64_def base64Value_def js_def
        List.map_filter_simps)
  have u: "bufferToString nodeEnv (js ''utf-8'') [104, 195, 169, 108, 108, 111] =
           Some [104, 233, 108, 108, 111]"
    by (simp add: nodeEnv_def nodeToString_def utf8Lead_def codeUnits_def js_def)
  have d: "decodeEncodedWords nodeEnv (js ''=?UTF-8?B?aMOpbGxv?='') = [104, 233, 108, 108, 111]"
  proof -
    have "js ''UTF-8'' \<noteq> []" "63 \<notin> set (js ''UTF-8'')" "(66::nat) \<in> {66, 98, 81, 113}"
      "63 \<notin> set (js ''aMOpbGxv'')"
      by (simp_all add: js_def)
    from decodeEncodedWords_word[OF this, of nodeEnv "[]"] show ?thesis
      unfolding w by (simp add: decodeWord_def n y u)
  qed
  have h: "parseHeaders asciiLower (headerSectionOf (js ''Subject: =?UTF-8?B?aMOpbGxv?=''))
             (js ''subject'') = Some (js ''=?UTF-8?B?aMOpbGxv?='')"
  proof -
    have s: "headerSectionOf (js ''Subject: =?UTF-8?B?aMOpbGxv?='') =
             js ''Subject: =?UTF-8?B?aMOpbGxv?=''"
      by (simp add: headerSectionOf_def indexOf_zero js_def)
    have f: "headerFields (js ''Subject: =?UTF-8?B?aMOpbGxv?='') =
             [(js ''Subject'', js '' =?UTF-8?B?aMOpbGxv?='')]"
      by (simp add: headerFields_def js_def indexOf_def slice_def trim_def isWhiteSpace_def)
    show ?thesis
      using foldl_storeField_lookup[of Map.empty "js ''subject''" "[]" asciiLower
          "headerFields (js ''Subject: =?UTF-8?B?aMOpbGxv?='')"]
      unfolding s parseHeaders_fields f
      by (simp add: joined_def asciiLower_def js_def trim_def isWhiteSpace_def)
  qed
  have t: "trim (js ''=?UTF-8?B?aMOpbGxv?='') = js ''=?UTF-8?B?aMOpbGxv?=''"
    by (simp add: js_def trim_def isWhiteSpace_def)
  have lc: "lowerCase nodeEnv = asciiLower" by (simp add: nodeEnv_def)
  have p: "subject (parseEmlHeaders nodeEnv (Some (js ''/m.eml'')) True
                    (Inr (js ''Subject: =?UTF-8?B?aMOpbGxv?=''))) = Some [104, 233, 108, 108, 111]"
    by (simp add: parseEmlHeaders_def Let_def getHeader_def lc h t d)
  from a b c d p show ?thesis by blast
qed

theorem encoded_words_decoded_witness:
  "js ''iso-8859-1'' \<noteq> [] \<and> 63 \<notin> set (js ''iso-8859-1'') \<and> (81::nat) \<in> {66, 98, 81, 113} \<and>
   63 \<notin> set (js ''a=41_b'') \<and>
   decodeEncodedWords nodeEnv (js ''=?iso-8859-1?Q?a=41_b?= x'') = js ''aA b x'' \<and>
   js ''windows-1252'' \<noteq> [] \<and> 63 \<notin> set (js ''windows-1252'') \<and>
   decodeEncodedWords nodeEnv (js ''=?windows-1252?Q?a=41_b?= x'') =
     js ''=?windows-1252?Q?a=41_b?= x''"
proof -
  have h: "js ''iso-8859-1'' \<noteq> []" "63 \<notin> set (js ''iso-8859-1'')"
    "(81::nat) \<in> {66, 98, 81, 113}" "63 \<notin> set (js ''a=41_b'')"
    "js ''windows-1252'' \<noteq> []" "63 \<notin> set (js ''windows-1252'')"
    by (simp_all add: js_def)
  have r: "decodeEncodedWords nodeEnv (js '' x'') = js '' x''"
    by (simp add: js_def matchEncodedWord_def)
  have b: "wordBytes nodeEnv 81 (js ''a=41_b'') = js ''aA b''"
    by (simp add: wordBytes_def js_def isHexDigit_def hexValue_def)
  have n1: "csNorm nodeEnv (js ''iso-8859-1'') = js ''latin1''"
    by (simp add: csNorm_def nodeEnv_def asciiLower_def js_def)
  have n2: "csNorm nodeEnv (js ''windows-1252'') = js ''windows-1252''"
    by (simp add: csNorm_def nodeEnv_def asciiLower_def js_def)
  have s1: "bufferToString nodeEnv (js ''latin1'') (js ''aA b'') = Some (js ''aA b'')"
    by (simp add: nodeEnv_def nodeToString_def js_def)
  have s2: "bufferToString nodeEnv (js ''windows-1252'') (js ''aA b'') = None"
    by (simp add: nodeEnv_def nodeToString_def js_def)
  have w1: "js ''=?iso-8859-1?Q?a=41_b?= x'' =
            js ''=?'' @ js ''iso-8859-1'' @ [63, 81, 63] @ js ''a=41_b'' @ js ''?='' @ js '' x''"
    by (simp add: js_def)
  have w2: "js ''=?windows-1252?Q?a=41_b?= x'' =
            js ''=?'' @ js ''windows-1252'' @ [63, 81, 63] @ js ''a=41_b'' @ js ''?='' @ js '' x''"
    by (simp add: js_def)
  from encoded_words_decoded[OF h(1,2,3,4), of nodeEnv "js '' x''" 0 "[]"]
  have 1: "decodeEncodedWords nodeEnv (js ''=?iso-8859-1?Q?a=41_b?= x'') = js ''aA b x''"
    unfolding w1[symmetric] by (simp add: n1 b s1 r js_append[symmetric])
  from encoded_words_decoded[OF h(5,6,3,4), of nodeEnv "js '' x''" 0 "[]"]
  have 2: "decodeEncodedWords nodeEnv (js ''=?windows-1252?Q?a=41_b?= x'') =
             js ''=?windows-1252?Q?a=41_b?= x''"
    unfolding w2[symmetric] by (simp add: n2 b s2 r w2)
  from h 1 2 show ?thesis by blast
qed


end
